theory Spec2Isabelle
  imports Main "HOL-Library.Sublist" "HOL-Library.Multiset"
begin

section \<open>The volume operation executor (pkg/volume/util/operationexecutor)\<close>

text \<open>
  A shallow embedding of \<^verbatim>\<open>operation_executor.go\<close>. The Go code threads two mutable
  objects through every call: the pending-operation registry and the log. Both live in a
  \<open>world\<close> record that every operation takes and returns. Next to them the world keeps a
  trace of what the executor did to its collaborators: each call on the operation
  generator, each call of the registry's \<open>Run\<close>, each task handed to a goroutine and each
  \<^verbatim>\<open>glog.Errorf\<close> line, in program order.
\<close>

subsection \<open>Data model\<close>

type_synonym UniqueVolumeName = string
type_synonym UniquePodName = string
type_synonym NodeName = string
type_synonym UID = string

text \<open>A Go pointer or interface value: an address, or \<open>None\<close> for \<^verbatim>\<open>nil\<close>.\<close>
type_synonym ref = "nat option"

text \<open>\<^verbatim>\<open>time.Duration\<close> is a signed count of nanoseconds.\<close>
type_synonym Duration = int

text \<open>
  A Go \<^verbatim>\<open>error\<close>. The two registry rejections are named by the specification; every
  other error is carried by its message.
\<close>
datatype error =
    OperationAlreadyExistsError UniqueVolumeName UniquePodName
  | ExponentialBackoffError UniqueVolumeName UniquePodName
  | Err string

record VolumeToAttach =
  vta_VolumeName :: UniqueVolumeName
  vta_VolumeSpec :: ref
  vta_NodeName :: NodeName
  vta_ScheduledPods :: "ref list"

record VolumeToMount =
  vtm_VolumeName :: UniqueVolumeName
  vtm_PodName :: UniquePodName
  vtm_VolumeSpec :: ref
  vtm_OuterVolumeSpecName :: string
  vtm_Pod :: ref
  vtm_PluginIsAttachable :: bool
  vtm_VolumeGidValue :: string
  vtm_DevicePath :: string
  vtm_ReportedInUse :: bool

record AttachedVolume =
  av_VolumeName :: UniqueVolumeName
  av_VolumeSpec :: ref
  av_NodeName :: NodeName
  av_PluginIsAttachable :: bool
  av_DevicePath :: string

record MountedVolume =
  mv_PodName :: UniquePodName
  mv_VolumeName :: UniqueVolumeName
  mv_InnerVolumeSpecName :: string
  mv_OuterVolumeSpecName :: string
  mv_PluginName :: string
  mv_PodUID :: UID
  mv_Mounter :: ref
  mv_VolumeGidValue :: string

text \<open>
  What the executor asks of a \<^verbatim>\<open>volume.VolumePlugin\<close>: the results of
  \<^verbatim>\<open>GetPluginName()\<close> and \<^verbatim>\<open>SupportsBulkVolumeVerification()\<close>.
\<close>
record VolumePlugin =
  GetPluginName :: string
  SupportsBulkVolumeVerification :: bool

text \<open>
  The \<^verbatim>\<open>OperationGenerator\<close> interface, one constructor per method the executor calls,
  with the arguments of the call. Go maps that the executor only passes on are association
  lists with distinct keys; \<^verbatim>\<open>*volume.Spec\<close> keys are addresses.
\<close>
datatype gen_call =
    GenerateAttachVolumeFunc VolumeToAttach ref
  | GenerateDetachVolumeFunc AttachedVolume bool ref
  | GenerateVolumesAreAttachedFunc "AttachedVolume list" NodeName ref
  | GenerateBulkVolumeVerifyFunc "(NodeName \<times> nat list) list" string
      "(nat \<times> UniqueVolumeName) list" ref
  | GenerateMountVolumeFunc Duration VolumeToMount ref
  | GenerateUnmountVolumeFunc MountedVolume ref
  | GenerateUnmountDeviceFunc AttachedVolume ref ref
  | GenerateVerifyControllerAttachedVolumeFunc VolumeToMount NodeName ref

text \<open>The \<^verbatim>\<open>glog.Errorf\<close> call sites of the file, with the values they print.\<close>
datatype log_line =
    NilSpec UniqueVolumeName
  | FindPluginBySpecFailed UniqueVolumeName nat NodeName "error option"
  | PerNodeVerifyError NodeName error
  | BulkGenerateError string error
  | BulkRunError string error

text \<open>A task is a Go \<^verbatim>\<open>func() error\<close> value, opaque to the executor: \<open>'t option\<close>,
  \<open>None\<close> for a nil function value.\<close>
datatype 't event =
    Generate gen_call
  | RunCalled UniqueVolumeName UniquePodName "'t option"
  | Spawned "'t option"
  | Errorf log_line

subsection \<open>The pending-operation registry\<close>

text \<open>
  Package \<^verbatim>\<open>nestedpendingoperations\<close>, the registry behind \<^verbatim>\<open>oe.pendingOperations\<close>, is
  imported by the executor but its source is not part of the excerpt. Every definition
  of this subsection is therefore written from sections 3, 4.1 and 4.2 of the
  specification. The specification gives no constants for the backoff window, so its
  length after \<open>n\<close> consecutive failures is the parameter \<open>durationBeforeRetry\<close>; time is
  a natural number read from the world's clock.
\<close>

text \<open>Modelled from the spec: the registry entry (PendingOperation) of section 3, which is
  missing with its package: the key, the running flag, the count of consecutive
  failures, the recorded error and the end of the backoff window.\<close>
record operation =
  op_volumeName :: UniqueVolumeName
  op_podName :: UniquePodName
  op_running :: bool
  op_failures :: nat
  op_lastError :: "error option"
  op_retryAfter :: nat

text \<open>Modelled from the spec: the registry object, missing with its package: its entries,
  which persist across calls, and whether it backs off on errors.\<close>
record nestedPendingOperations =
  operations :: "operation list"
  exponentialBackOffOnError :: bool
  durationBeforeRetry :: "nat \<Rightarrow> nat"

text \<open>The mutable state every operation takes and returns: the registry, the clock and
  the trace.\<close>
record 't world =
  pendingOperations :: nestedPendingOperations
  clock :: nat
  trace :: "'t event list"

text \<open>Modelled from the spec: the constructor \<^verbatim>\<open>NewNestedPendingOperations\<close>, missing with
  its package: a registry without entries.\<close>
definition NewNestedPendingOperations :: "bool \<Rightarrow> (nat \<Rightarrow> nat) \<Rightarrow> nestedPendingOperations" where
  "NewNestedPendingOperations backoff window =
     \<lparr>operations = [], exponentialBackOffOnError = backoff, durationBeforeRetry = window\<rparr>"

definition emit :: "'t event \<Rightarrow> 't world \<Rightarrow> 't world" where
  "emit e w = w\<lparr>trace := trace w @ [e]\<rparr>"

text \<open>Modelled from the spec: the constant \<^verbatim>\<open>nestedpendingoperations.EmptyUniquePodName\<close>,
  missing with its package: the empty pod identifier of section 3.\<close>
definition EmptyUniquePodName :: UniquePodName where
  "EmptyUniquePodName = ''''"

text \<open>Modelled from the spec: the empty volume identifier, the always-unique sentinel of
  sections 3 and 4.2; the registry's own name for it is missing with its package.\<close>
definition EmptyUniqueVolumeName :: UniqueVolumeName where
  "EmptyUniqueVolumeName = ''''"

text \<open>Modelled from the spec: the conflict rule of section 4.1, whose code is missing with
  the registry: same volume identifier, and either pod identifier empty or both equal.\<close>
definition conflictsWith :: "UniqueVolumeName \<Rightarrow> UniquePodName \<Rightarrow> operation \<Rightarrow> bool" where
  "conflictsWith volumeKey podKey op \<longleftrightarrow>
     op_volumeName op = volumeKey \<and>
     (op_podName op = EmptyUniquePodName \<or> podKey = EmptyUniquePodName \<or> op_podName op = podKey)"

text \<open>Modelled from the spec: the entry of "that exact key" (section 4.1).\<close>
definition hasKey :: "UniqueVolumeName \<Rightarrow> UniquePodName \<Rightarrow> operation \<Rightarrow> bool" where
  "hasKey volumeKey podKey op \<longleftrightarrow> op_volumeName op = volumeKey \<and> op_podName op = podKey"

text \<open>Modelled from the spec: "a conflicting key is already running" (section 4.1).\<close>
definition isRunningConflict :: "UniqueVolumeName \<Rightarrow> UniquePodName \<Rightarrow> operation list \<Rightarrow> bool" where
  "isRunningConflict volumeKey podKey ops =
     list_ex (\<lambda>op. op_running op \<and> conflictsWith volumeKey podKey op) ops"

text \<open>Modelled from the spec: the backoff window of section 4.1, during which new
  submissions "for that exact key are also rejected".\<close>
definition inBackoffWindow :: "nat \<Rightarrow> UniqueVolumeName \<Rightarrow> UniquePodName \<Rightarrow> operation list \<Rightarrow> bool" where
  "inBackoffWindow now volumeKey podKey ops =
     (case find (hasKey volumeKey podKey) ops of
        None \<Rightarrow> False
      | Some op \<Rightarrow> now < op_retryAfter op)"

text \<open>Modelled from the spec: a fresh entry, busy and without failures.\<close>
definition newOperation :: "UniqueVolumeName \<Rightarrow> UniquePodName \<Rightarrow> operation" where
  "newOperation volumeKey podKey =
     \<lparr>op_volumeName = volumeKey, op_podName = podKey, op_running = True,
      op_failures = 0, op_lastError = None, op_retryAfter = 0\<rparr>"

text \<open>Modelled from the spec: "the registry marks the key busy" (section 4.1); entries are
  created lazily on the first submission of a key and reused afterwards (section 3).\<close>
fun markBusy :: "UniqueVolumeName \<Rightarrow> UniquePodName \<Rightarrow> operation list \<Rightarrow> operation list" where
  "markBusy volumeKey podKey [] = [newOperation volumeKey podKey]"
| "markBusy volumeKey podKey (op # ops) =
     (if hasKey volumeKey podKey op then op\<lparr>op_running := True\<rparr> # ops
      else op # markBusy volumeKey podKey ops)"

definition setOperations :: "operation list \<Rightarrow> 't world \<Rightarrow> 't world" where
  "setOperations ops w = w\<lparr>pendingOperations := (pendingOperations w)\<lparr>operations := ops\<rparr>\<rparr>"

text \<open>
  Modelled from the spec: the registry's \<^verbatim>\<open>Run(volumeKey, podKey, task)\<close> of section 4.1,
  missing with its package. It fails at once with \<open>OperationAlreadyExistsError\<close> if a
  conflicting key is running, rejects the exact key inside its backoff window, and
  otherwise marks the key busy, spawns the task and returns. A submission under the
  empty volume identifier is always unique (sections 3 and 4.2): it is accepted and gets
  an entry of its own.
\<close>
definition Run ::
  "UniqueVolumeName \<Rightarrow> UniquePodName \<Rightarrow> 't option \<Rightarrow> 't world \<Rightarrow> error option \<times> 't world" where
  "Run volumeKey podKey task w =
     (let w1 = emit (RunCalled volumeKey podKey task) w;
          ops = operations (pendingOperations w1)
      in if volumeKey = EmptyUniqueVolumeName then
           (None, emit (Spawned task) (setOperations (ops @ [newOperation volumeKey podKey]) w1))
         else if isRunningConflict volumeKey podKey ops then
           (Some (OperationAlreadyExistsError volumeKey podKey), w1)
         else if inBackoffWindow (clock w1) volumeKey podKey ops then
           (Some (ExponentialBackoffError volumeKey podKey), w1)
         else
           (None, emit (Spawned task) (setOperations (markBusy volumeKey podKey ops) w1)))"

text \<open>
  Modelled from the spec: what the registry does when the task spawned under a key
  signals completion with its outcome (\<open>None\<close> for success), section 4.1: the busy flag
  is cleared; a success resets the failure counter, a failure increments it, records the
  error and, if configured, opens the backoff window.
\<close>
definition finish :: "nestedPendingOperations \<Rightarrow> nat \<Rightarrow> error option \<Rightarrow> operation \<Rightarrow> operation" where
  "finish grm now outcome op =
     (case outcome of
        None \<Rightarrow> op\<lparr>op_running := False, op_failures := 0, op_lastError := None, op_retryAfter := 0\<rparr>
      | Some err \<Rightarrow>
          op\<lparr>op_running := False,
             op_failures := Suc (op_failures op),
             op_lastError := Some err,
             op_retryAfter :=
               (if exponentialBackOffOnError grm
                then now + durationBeforeRetry grm (Suc (op_failures op)) else 0)\<rparr>)"

text \<open>Modelled from the spec: completion reaches the running entry of the key.\<close>
fun completeFirst ::
  "nestedPendingOperations \<Rightarrow> nat \<Rightarrow> UniqueVolumeName \<Rightarrow> UniquePodName \<Rightarrow> error option \<Rightarrow>
   operation list \<Rightarrow> operation list" where
  "completeFirst grm now volumeKey podKey outcome [] = []"
| "completeFirst grm now volumeKey podKey outcome (op # ops) =
     (if hasKey volumeKey podKey op \<and> op_running op then finish grm now outcome op # ops
      else op # completeFirst grm now volumeKey podKey outcome ops)"

text \<open>Modelled from the spec: the completion of a task as a step of the world.\<close>
definition operationComplete ::
  "UniqueVolumeName \<Rightarrow> UniquePodName \<Rightarrow> error option \<Rightarrow> 't world \<Rightarrow> 't world" where
  "operationComplete volumeKey podKey outcome w =
     setOperations
       (completeFirst (pendingOperations w) (clock w) volumeKey podKey outcome
          (operations (pendingOperations w))) w"

definition advanceClock :: "nat \<Rightarrow> 't world \<Rightarrow> 't world" where
  "advanceClock d w = w\<lparr>clock := clock w + d\<rparr>"

definition newWorld :: "bool \<Rightarrow> (nat \<Rightarrow> nat) \<Rightarrow> 't world" where
  "newWorld backoff window =
     \<lparr>pendingOperations = NewNestedPendingOperations backoff window, clock = 0, trace = []\<rparr>"

text \<open>The worlds a registry can be in: created empty, then any interleaving of
  submissions, task completions and the passing of time.\<close>
inductive reachable :: "'t world \<Rightarrow> bool" where
  reachable_new: "reachable (newWorld backoff window)"
| reachable_Run: "reachable w \<Longrightarrow> reachable (snd (Run volumeKey podKey task w))"
| reachable_complete: "reachable w \<Longrightarrow> reachable (operationComplete volumeKey podKey outcome w)"
| reachable_clock: "reachable w \<Longrightarrow> reachable (advanceClock d w)"

text \<open>The number of entries running under exactly the key \<open>(volumeKey, podKey)\<close>.\<close>
definition runningUnder :: "UniqueVolumeName \<Rightarrow> UniquePodName \<Rightarrow> 't world \<Rightarrow> nat" where
  "runningUnder volumeKey podKey w =
     length (filter (\<lambda>op. op_running op \<and> hasKey volumeKey podKey op)
       (operations (pendingOperations w)))"

subsection \<open>The executor's verbs\<close>

text \<open>
  The executor's collaborators, whose implementations are outside the excerpt and are
  therefore parameters: \<open>operationGenerator\<close> gives, for each call on the
  \<^verbatim>\<open>OperationGenerator\<close> interface, the pair (task, error) the method returns;
  \<open>FindPluginBySpec\<close> is \<^verbatim>\<open>GetVolumePluginMgr().FindPluginBySpec\<close>, returning the pair
  (plugin, error) for the spec at an address; \<open>GetUniquePodName\<close> is
  \<^verbatim>\<open>volumehelper.GetUniquePodName\<close>, applied to the pod pointer.
\<close>
record 't operationExecutor =
  operationGenerator :: "gen_call \<Rightarrow> 't option \<times> error option"
  FindPluginBySpec :: "nat \<Rightarrow> VolumePlugin option \<times> error option"
  GetUniquePodName :: "ref \<Rightarrow> UniquePodName"

text \<open>\<^verbatim>\<open>NewOperationExecutor\<close> creates the registry with exponential backoff switched on.\<close>
definition NewOperationExecutor :: "(nat \<Rightarrow> nat) \<Rightarrow> 't world" where
  "NewOperationExecutor window = newWorld True window"

definition generate ::
  "'t operationExecutor \<Rightarrow> gen_call \<Rightarrow> 't world \<Rightarrow> ('t option \<times> error option) \<times> 't world" where
  "generate oe call w = (operationGenerator oe call, emit (Generate call) w)"

definition AttachVolume ::
  "'t operationExecutor \<Rightarrow> VolumeToAttach \<Rightarrow> ref \<Rightarrow> 't world \<Rightarrow> error option \<times> 't world" where
  "AttachVolume oe volumeToAttach actualStateOfWorld w =
     (case generate oe (GenerateAttachVolumeFunc volumeToAttach actualStateOfWorld) w of
        ((attachFunc, Some err), w1) \<Rightarrow> (Some err, w1)
      | ((attachFunc, None), w1) \<Rightarrow> Run (vta_VolumeName volumeToAttach) '''' attachFunc w1)"

definition DetachVolume ::
  "'t operationExecutor \<Rightarrow> AttachedVolume \<Rightarrow> bool \<Rightarrow> ref \<Rightarrow> 't world \<Rightarrow> error option \<times> 't world" where
  "DetachVolume oe volumeToDetach verifySafeToDetach actualStateOfWorld w =
     (case generate oe
             (GenerateDetachVolumeFunc volumeToDetach verifySafeToDetach actualStateOfWorld) w of
        ((detachFunc, Some err), w1) \<Rightarrow> (Some err, w1)
      | ((detachFunc, None), w1) \<Rightarrow> Run (av_VolumeName volumeToDetach) '''' detachFunc w1)"

definition VerifyVolumesAreAttachedPerNode ::
  "'t operationExecutor \<Rightarrow> AttachedVolume list \<Rightarrow> NodeName \<Rightarrow> ref \<Rightarrow> 't world \<Rightarrow>
   error option \<times> 't world" where
  "VerifyVolumesAreAttachedPerNode oe attachedVolumes nodeName actualStateOfWorld w =
     (case generate oe
             (GenerateVolumesAreAttachedFunc attachedVolumes nodeName actualStateOfWorld) w of
        ((volumesAreAttachedFunc, Some err), w1) \<Rightarrow> (Some err, w1)
      | ((volumesAreAttachedFunc, None), w1) \<Rightarrow> Run '''' '''' volumesAreAttachedFunc w1)"

definition MountVolume ::
  "'t operationExecutor \<Rightarrow> Duration \<Rightarrow> VolumeToMount \<Rightarrow> ref \<Rightarrow> 't world \<Rightarrow>
   error option \<times> 't world" where
  "MountVolume oe waitForAttachTimeout volumeToMount actualStateOfWorld w =
     (case generate oe
             (GenerateMountVolumeFunc waitForAttachTimeout volumeToMount actualStateOfWorld) w of
        ((mountFunc, Some err), w1) \<Rightarrow> (Some err, w1)
      | ((mountFunc, None), w1) \<Rightarrow>
          (let podName =
                 (if \<not> vtm_PluginIsAttachable volumeToMount
                  then GetUniquePodName oe (vtm_Pod volumeToMount)
                  else EmptyUniquePodName)
           in Run (vtm_VolumeName volumeToMount) podName mountFunc w1))"

definition UnmountVolume ::
  "'t operationExecutor \<Rightarrow> MountedVolume \<Rightarrow> ref \<Rightarrow> 't world \<Rightarrow> error option \<times> 't world" where
  "UnmountVolume oe volumeToUnmount actualStateOfWorld w =
     (case generate oe (GenerateUnmountVolumeFunc volumeToUnmount actualStateOfWorld) w of
        ((unmountFunc, Some err), w1) \<Rightarrow> (Some err, w1)
      | ((unmountFunc, None), w1) \<Rightarrow>
          (let podName = mv_PodUID volumeToUnmount
           in Run (mv_VolumeName volumeToUnmount) podName unmountFunc w1))"

definition UnmountDevice ::
  "'t operationExecutor \<Rightarrow> AttachedVolume \<Rightarrow> ref \<Rightarrow> ref \<Rightarrow> 't world \<Rightarrow> error option \<times> 't world" where
  "UnmountDevice oe deviceToDetach actualStateOfWorld mounter w =
     (case generate oe (GenerateUnmountDeviceFunc deviceToDetach actualStateOfWorld mounter) w of
        ((unmountDeviceFunc, Some err), w1) \<Rightarrow> (Some err, w1)
      | ((unmountDeviceFunc, None), w1) \<Rightarrow>
          Run (av_VolumeName deviceToDetach) '''' unmountDeviceFunc w1)"

definition VerifyControllerAttachedVolume ::
  "'t operationExecutor \<Rightarrow> VolumeToMount \<Rightarrow> NodeName \<Rightarrow> ref \<Rightarrow> 't world \<Rightarrow>
   error option \<times> 't world" where
  "VerifyControllerAttachedVolume oe volumeToMount nodeName actualStateOfWorld w =
     (case generate oe
             (GenerateVerifyControllerAttachedVolumeFunc volumeToMount nodeName
                actualStateOfWorld) w of
        ((verifyControllerAttachedVolumeFunc, Some err), w1) \<Rightarrow> (Some err, w1)
      | ((verifyControllerAttachedVolumeFunc, None), w1) \<Rightarrow>
          Run (vtm_VolumeName volumeToMount) '''' verifyControllerAttachedVolumeFunc w1)"

subsection \<open>Bulk verification\<close>

text \<open>
  Go maps the executor builds and reads are association lists with distinct keys:
  \<open>assign\<close> is \<^verbatim>\<open>m[k] = v\<close> and \<open>lookup\<close> is \<^verbatim>\<open>m[k]\<close>, which gives the nil (empty)
  map or slice for a missing key.
\<close>
fun assign :: "'k \<Rightarrow> 'v \<Rightarrow> ('k \<times> 'v) list \<Rightarrow> ('k \<times> 'v) list" where
  "assign k v [] = [(k, v)]"
| "assign k v (e # m) = (if fst e = k then (k, v) # m else e # assign k v m)"

definition lookup :: "('k \<times> 'v list) list \<Rightarrow> 'k \<Rightarrow> 'v list" where
  "lookup m k = (case map_of m k of None \<Rightarrow> [] | Some v \<Rightarrow> v)"

type_synonym bulkVerifyPlugins = "(string \<times> (NodeName \<times> nat list) list) list"
type_synonym volumeSpecMaps = "(string \<times> (nat \<times> UniqueVolumeName) list) list"

text \<open>Lines 426 to 446: the volume joins its plugin's batch for the node, and its name is
  recorded under its spec.\<close>
definition accumulate ::
  "NodeName \<Rightarrow> string \<Rightarrow> nat \<Rightarrow> UniqueVolumeName \<Rightarrow>
   bulkVerifyPlugins \<times> volumeSpecMaps \<Rightarrow> bulkVerifyPlugins \<times> volumeSpecMaps" where
  "accumulate node pluginName spec volumeName maps =
     (case maps of (bulkVerifyPluginsByNode, volumeSpecMapByPlugin) \<Rightarrow>
        (let pluginNodes = lookup bulkVerifyPluginsByNode pluginName;
             volumeSpecList = lookup pluginNodes node;
             pluginNodes1 = assign node (volumeSpecList @ [spec]) pluginNodes;
             volumeSpecMap = lookup volumeSpecMapByPlugin pluginName;
             volumeSpecMap1 = assign spec volumeName volumeSpecMap
         in (assign pluginName pluginNodes1 bulkVerifyPluginsByNode,
             assign pluginName volumeSpecMap1 volumeSpecMapByPlugin)))"

text \<open>
  The inner loop over one node's volumes. \<open>nodeAttachedVolumes\<close> is the node's whole
  list, which the per-node fallback receives; the fifth argument is what is left to
  iterate. A \<^verbatim>\<open>continue\<close> is the recursive call, the \<^verbatim>\<open>break\<close> returns.
\<close>
fun verifyNodeVolumes ::
  "'t operationExecutor \<Rightarrow> ref \<Rightarrow> NodeName \<Rightarrow> AttachedVolume list \<Rightarrow> AttachedVolume list \<Rightarrow>
   (bulkVerifyPlugins \<times> volumeSpecMaps) \<times> 't world \<Rightarrow>
   (bulkVerifyPlugins \<times> volumeSpecMaps) \<times> 't world" where
  "verifyNodeVolumes oe actualStateOfWorld node nodeAttachedVolumes [] s = s"
| "verifyNodeVolumes oe actualStateOfWorld node nodeAttachedVolumes (volumeAttached # rest)
     (maps, w) =
     (case av_VolumeSpec volumeAttached of
        None \<Rightarrow>
          verifyNodeVolumes oe actualStateOfWorld node nodeAttachedVolumes rest
            (maps, emit (Errorf (NilSpec (av_VolumeName volumeAttached))) w)
      | Some spec \<Rightarrow>
          (case FindPluginBySpec oe spec of
             (None, err) \<Rightarrow>
               verifyNodeVolumes oe actualStateOfWorld node nodeAttachedVolumes rest
                 (maps, emit (Errorf (FindPluginBySpecFailed (av_VolumeName volumeAttached) spec
                                 (av_NodeName volumeAttached) err)) w)
           | (Some volumePlugin, Some err) \<Rightarrow>
               verifyNodeVolumes oe actualStateOfWorld node nodeAttachedVolumes rest
                 (maps, emit (Errorf (FindPluginBySpecFailed (av_VolumeName volumeAttached) spec
                                 (av_NodeName volumeAttached) (Some err))) w)
           | (Some volumePlugin, None) \<Rightarrow>
               (if SupportsBulkVolumeVerification volumePlugin then
                  verifyNodeVolumes oe actualStateOfWorld node nodeAttachedVolumes rest
                    (accumulate node (GetPluginName volumePlugin) spec
                       (av_VolumeName volumeAttached) maps, w)
                else
                  (case VerifyVolumesAreAttachedPerNode oe nodeAttachedVolumes node
                          actualStateOfWorld w of
                     (Some nodeError, w1) \<Rightarrow>
                       (maps, emit (Errorf (PerNodeVerifyError node nodeError)) w1)
                   | (None, w1) \<Rightarrow> (maps, w1)))))"

text \<open>The outer loop over the nodes of \<open>attachedVolumes\<close>, a Go map given as the list of
  its entries in the order the runtime enumerates them.\<close>
fun partitionByPlugin ::
  "'t operationExecutor \<Rightarrow> ref \<Rightarrow> (NodeName \<times> AttachedVolume list) list \<Rightarrow>
   (bulkVerifyPlugins \<times> volumeSpecMaps) \<times> 't world \<Rightarrow>
   (bulkVerifyPlugins \<times> volumeSpecMaps) \<times> 't world" where
  "partitionByPlugin oe actualStateOfWorld [] s = s"
| "partitionByPlugin oe actualStateOfWorld ((node, nodeAttachedVolumes) # others) s =
     partitionByPlugin oe actualStateOfWorld others
       (verifyNodeVolumes oe actualStateOfWorld node nodeAttachedVolumes nodeAttachedVolumes s)"

text \<open>The second loop, lines 459 to 474, over the entries of
  \<open>bulkVerifyPluginsByNode\<close> in the order given.\<close>
fun submitBulkVerify ::
  "'t operationExecutor \<Rightarrow> ref \<Rightarrow> volumeSpecMaps \<Rightarrow> bulkVerifyPlugins \<Rightarrow> 't world \<Rightarrow> 't world" where
  "submitBulkVerify oe actualStateOfWorld volumeSpecMapByPlugin [] w = w"
| "submitBulkVerify oe actualStateOfWorld volumeSpecMapByPlugin
     ((pluginName, pluginNodeVolumes) # others) w =
     (case generate oe
             (GenerateBulkVolumeVerifyFunc pluginNodeVolumes pluginName
                (lookup volumeSpecMapByPlugin pluginName) actualStateOfWorld) w of
        ((bulkVerifyVolumeFunc, err), w1) \<Rightarrow>
          (let w2 = (case err of
                       Some e \<Rightarrow> emit (Errorf (BulkGenerateError pluginName e)) w1
                     | None \<Rightarrow> w1)
           in case Run pluginName '''' bulkVerifyVolumeFunc w2 of
                (Some e, w3) \<Rightarrow>
                  submitBulkVerify oe actualStateOfWorld volumeSpecMapByPlugin others
                    (emit (Errorf (BulkRunError pluginName e)) w3)
              | (None, w3) \<Rightarrow>
                  submitBulkVerify oe actualStateOfWorld volumeSpecMapByPlugin others w3))"

text \<open>
  Go leaves the order of a \<^verbatim>\<open>range\<close> over a map to the runtime. For the input map the
  order is that of the list \<open>attachedVolumes\<close>; for the map the function builds itself it
  is the argument \<open>rangeOrder\<close>, which rearranges the entries.
\<close>
definition VerifyVolumesAreAttached ::
  "'t operationExecutor \<Rightarrow> (bulkVerifyPlugins \<Rightarrow> bulkVerifyPlugins) \<Rightarrow>
   (NodeName \<times> AttachedVolume list) list \<Rightarrow> ref \<Rightarrow> 't world \<Rightarrow> 't world" where
  "VerifyVolumesAreAttached oe rangeOrder attachedVolumes actualStateOfWorld w =
     (case partitionByPlugin oe actualStateOfWorld attachedVolumes (([], []), w) of
        ((bulkVerifyPluginsByNode, volumeSpecMapByPlugin), w1) \<Rightarrow>
          submitBulkVerify oe actualStateOfWorld volumeSpecMapByPlugin
            (rangeOrder bulkVerifyPluginsByNode) w1)"

subsection \<open>Mount-reference filtering\<close>

text \<open>Go's \<^verbatim>\<open>strings.Contains(s, substr)\<close>: \<open>substr\<close> occurs in \<open>s\<close> as a contiguous run
  of bytes.\<close>
fun Contains :: "string \<Rightarrow> string \<Rightarrow> bool" where
  "Contains [] substr = (substr = [])"
| "Contains (c # s) substr = (prefix substr (c # s) \<or> Contains s substr)"

text \<open>The loop of \<^verbatim>\<open>hasMountRefs\<close>. The counter is at most the length of the slice, so Go's
  \<^verbatim>\<open>int\<close> cannot overflow and an unbounded integer stands for it.\<close>
fun countRefs :: "string \<Rightarrow> string list \<Rightarrow> int \<Rightarrow> int" where
  "countRefs mountPath [] cnt = cnt"
| "countRefs mountPath (r # mountRefs) cnt =
     countRefs mountPath mountRefs (if \<not> Contains r mountPath then cnt + 1 else cnt)"

definition hasMountRefs :: "string \<Rightarrow> string list \<Rightarrow> bool" where
  "hasMountRefs mountPath mountRefs = (countRefs mountPath mountRefs 0 > 0)"

subsection \<open>Reading the trace\<close>

fun runCallOf :: "'t event \<Rightarrow> (UniqueVolumeName \<times> UniquePodName \<times> 't option) list" where
  "runCallOf (RunCalled volumeKey podKey task) = [(volumeKey, podKey, task)]"
| "runCallOf (Generate call) = []"
| "runCallOf (Spawned task) = []"
| "runCallOf (Errorf line) = []"

fun generateCallOf :: "'t event \<Rightarrow> gen_call list" where
  "generateCallOf (Generate call) = [call]"
| "generateCallOf (RunCalled volumeKey podKey task) = []"
| "generateCallOf (Spawned task) = []"
| "generateCallOf (Errorf line) = []"

fun errorLineOf :: "'t event \<Rightarrow> log_line list" where
  "errorLineOf (Errorf line) = [line]"
| "errorLineOf (Generate call) = []"
| "errorLineOf (RunCalled volumeKey podKey task) = []"
| "errorLineOf (Spawned task) = []"

text \<open>The calls of the registry's \<open>Run\<close>, the calls on the operation generator and the
  logged lines of a trace, each in program order.\<close>
definition runCalls :: "'t event list \<Rightarrow> (UniqueVolumeName \<times> UniquePodName \<times> 't option) list" where
  "runCalls tr = concat (map runCallOf tr)"

definition generateCalls :: "'t event list \<Rightarrow> gen_call list" where
  "generateCalls tr = concat (map generateCallOf tr)"

definition errorLines :: "'t event list \<Rightarrow> log_line list" where
  "errorLines tr = concat (map errorLineOf tr)"

text \<open>Modelled from the spec: the registry's immediate accept or reject answer to a
  submission under a key (section 4.1), as a function of the registry's state and the
  clock; the registry's code is missing with its package.\<close>
definition acceptOrReject :: "UniqueVolumeName \<Rightarrow> UniquePodName \<Rightarrow> 't world \<Rightarrow> error option" where
  "acceptOrReject volumeKey podKey w =
     (let ops = operations (pendingOperations w)
      in if volumeKey = EmptyUniqueVolumeName then None
         else if isRunningConflict volumeKey podKey ops then
           Some (OperationAlreadyExistsError volumeKey podKey)
         else if inBackoffWindow (clock w) volumeKey podKey ops then
           Some (ExponentialBackoffError volumeKey podKey)
         else None)"

text \<open>The key under which \<^verbatim>\<open>MountVolume\<close> submits.\<close>
definition mountPodKey :: "'t operationExecutor \<Rightarrow> VolumeToMount \<Rightarrow> UniquePodName" where
  "mountPodKey oe volumeToMount =
     (if vtm_PluginIsAttachable volumeToMount then EmptyUniquePodName
      else GetUniquePodName oe (vtm_Pod volumeToMount))"

text \<open>What a verb's call of the registry looks like in the trace: nothing when the
  generator failed, else one call under the key with the generated task.\<close>
definition submission ::
  "'t operationExecutor \<Rightarrow> gen_call \<Rightarrow> UniqueVolumeName \<Rightarrow> UniquePodName \<Rightarrow>
   (UniqueVolumeName \<times> UniquePodName \<times> 't option) list" where
  "submission oe call volumeKey podKey =
     (case operationGenerator oe call of
        (task, Some err) \<Rightarrow> []
      | (task, None) \<Rightarrow> [(volumeKey, podKey, task)])"

text \<open>
  The template section 4.2 of the specification gives for every verb, in its own words:
  ask the generator for the task and return its error if it fails; otherwise submit the
  task under the key and return what the registry answers.
\<close>
definition verbTemplate ::
  "'t operationExecutor \<Rightarrow> gen_call \<Rightarrow> UniqueVolumeName \<Rightarrow> UniquePodName \<Rightarrow> 't world \<Rightarrow>
   error option \<times> 't world" where
  "verbTemplate oe call volumeKey podKey w =
     (case operationGenerator oe call of
        (task, Some err) \<Rightarrow> (Some err, emit (Generate call) w)
      | (task, None) \<Rightarrow> Run volumeKey podKey task (emit (Generate call) w))"

subsection \<open>Describing the partition\<close>

text \<open>The spec address and plugin of a volume that has a spec whose plugin resolves
  (non-nil plugin, nil error).\<close>
definition resolvePlugin :: "'t operationExecutor \<Rightarrow> AttachedVolume \<Rightarrow> (nat \<times> VolumePlugin) option" where
  "resolvePlugin oe volumeAttached =
     (case av_VolumeSpec volumeAttached of
        None \<Rightarrow> None
      | Some spec \<Rightarrow>
          (case FindPluginBySpec oe spec of
             (Some volumePlugin, None) \<Rightarrow> Some (spec, volumePlugin)
           | (Some volumePlugin, Some err) \<Rightarrow> None
           | (None, err) \<Rightarrow> None))"

text \<open>A volume sends its node to per-node verification when its plugin resolves and does
  not support bulk verification.\<close>
definition fallsBack :: "'t operationExecutor \<Rightarrow> AttachedVolume \<Rightarrow> bool" where
  "fallsBack oe volumeAttached =
     (case resolvePlugin oe volumeAttached of
        None \<Rightarrow> False
      | Some (spec, volumePlugin) \<Rightarrow> \<not> SupportsBulkVolumeVerification volumePlugin)"

text \<open>The volumes of a node's list that the loop looks at: those before the first one
  that falls back.\<close>
definition examined :: "'t operationExecutor \<Rightarrow> AttachedVolume list \<Rightarrow> AttachedVolume list" where
  "examined oe nodeAttachedVolumes = takeWhile (\<lambda>v. \<not> fallsBack oe v) nodeAttachedVolumes"

definition accumulateVolume ::
  "'t operationExecutor \<Rightarrow> NodeName \<Rightarrow> bulkVerifyPlugins \<times> volumeSpecMaps \<Rightarrow> AttachedVolume \<Rightarrow>
   bulkVerifyPlugins \<times> volumeSpecMaps" where
  "accumulateVolume oe node maps volumeAttached =
     (case resolvePlugin oe volumeAttached of
        None \<Rightarrow> maps
      | Some (spec, volumePlugin) \<Rightarrow>
          if SupportsBulkVolumeVerification volumePlugin
          then accumulate node (GetPluginName volumePlugin) spec (av_VolumeName volumeAttached) maps
          else maps)"

text \<open>The line logged for a volume that is skipped: nil spec, or no plugin for the spec.\<close>
definition skipLine :: "'t operationExecutor \<Rightarrow> AttachedVolume \<Rightarrow> log_line list" where
  "skipLine oe volumeAttached =
     (case av_VolumeSpec volumeAttached of
        None \<Rightarrow> [NilSpec (av_VolumeName volumeAttached)]
      | Some spec \<Rightarrow>
          (case FindPluginBySpec oe spec of
             (Some volumePlugin, None) \<Rightarrow> []
           | (Some volumePlugin, Some err) \<Rightarrow>
               [FindPluginBySpecFailed (av_VolumeName volumeAttached) spec
                  (av_NodeName volumeAttached) (Some err)]
           | (None, err) \<Rightarrow>
               [FindPluginBySpecFailed (av_VolumeName volumeAttached) spec
                  (av_NodeName volumeAttached) err]))"

text \<open>The per-node fallback of a node, as a generator call: made when some volume of
  the node falls back, with the node's whole list.\<close>
definition perNodeCall ::
  "'t operationExecutor \<Rightarrow> ref \<Rightarrow> NodeName \<times> AttachedVolume list \<Rightarrow> gen_call list" where
  "perNodeCall oe actualStateOfWorld entry =
     (if list_ex (fallsBack oe) (snd entry)
      then [GenerateVolumesAreAttachedFunc (snd entry) (fst entry) actualStateOfWorld]
      else [])"

definition perNodeSubmission ::
  "'t operationExecutor \<Rightarrow> ref \<Rightarrow> NodeName \<times> AttachedVolume list \<Rightarrow>
   (UniqueVolumeName \<times> UniquePodName \<times> 't option) list" where
  "perNodeSubmission oe actualStateOfWorld entry =
     (if list_ex (fallsBack oe) (snd entry)
      then submission oe
             (GenerateVolumesAreAttachedFunc (snd entry) (fst entry) actualStateOfWorld) '''' ''''
      else [])"

text \<open>The name of the plugin whose batch a volume joins, if it joins one.\<close>
definition pluginNameOf :: "'t operationExecutor \<Rightarrow> AttachedVolume \<Rightarrow> string list" where
  "pluginNameOf oe volumeAttached =
     (case resolvePlugin oe volumeAttached of
        None \<Rightarrow> []
      | Some (spec, volumePlugin) \<Rightarrow>
          if SupportsBulkVolumeVerification volumePlugin
          then [GetPluginName volumePlugin] else [])"

text \<open>The names of the plugins that received a volume from a node's list.\<close>
definition accumulatedPlugins ::
  "'t operationExecutor \<Rightarrow> (NodeName \<times> AttachedVolume list) list \<Rightarrow> string list" where
  "accumulatedPlugins oe attachedVolumes =
     concat (map (\<lambda>entry. concat (map (pluginNameOf oe) (examined oe (snd entry))))
       attachedVolumes)"

text \<open>The state after the first loop of \<^verbatim>\<open>VerifyVolumesAreAttached\<close>.\<close>
definition partitioned ::
  "'t operationExecutor \<Rightarrow> (NodeName \<times> AttachedVolume list) list \<Rightarrow> ref \<Rightarrow> 't world \<Rightarrow>
   (bulkVerifyPlugins \<times> volumeSpecMaps) \<times> 't world" where
  "partitioned oe attachedVolumes actualStateOfWorld w =
     partitionByPlugin oe actualStateOfWorld attachedVolumes (([], []), w)"

text \<open>The generator call and the registry call the second loop makes for one entry.\<close>
definition bulkGenerateCall ::
  "ref \<Rightarrow> volumeSpecMaps \<Rightarrow> string \<times> (NodeName \<times> nat list) list \<Rightarrow> gen_call" where
  "bulkGenerateCall actualStateOfWorld volumeSpecMapByPlugin entry =
     GenerateBulkVolumeVerifyFunc (snd entry) (fst entry)
       (lookup volumeSpecMapByPlugin (fst entry)) actualStateOfWorld"

definition bulkSubmission ::
  "'t operationExecutor \<Rightarrow> ref \<Rightarrow> volumeSpecMaps \<Rightarrow> string \<times> (NodeName \<times> nat list) list \<Rightarrow>
   UniqueVolumeName \<times> UniquePodName \<times> 't option" where
  "bulkSubmission oe actualStateOfWorld volumeSpecMapByPlugin entry =
     (fst entry, '''',
      fst (operationGenerator oe (bulkGenerateCall actualStateOfWorld volumeSpecMapByPlugin entry)))"

text \<open>The registry calls of the second loop, in the order the map is enumerated.\<close>
definition bulkRunCalls ::
  "'t operationExecutor \<Rightarrow> (bulkVerifyPlugins \<Rightarrow> bulkVerifyPlugins) \<Rightarrow>
   (NodeName \<times> AttachedVolume list) list \<Rightarrow> ref \<Rightarrow> 't world \<Rightarrow>
   (UniqueVolumeName \<times> UniquePodName \<times> 't option) list" where
  "bulkRunCalls oe rangeOrder attachedVolumes actualStateOfWorld w =
     map (bulkSubmission oe actualStateOfWorld
            (snd (fst (partitioned oe attachedVolumes actualStateOfWorld w))))
       (rangeOrder (fst (fst (partitioned oe attachedVolumes actualStateOfWorld w))))"

text \<open>The spec addresses of a list of volumes, and the lists all of whose volumes have a
  spec that resolves to the plugin given.\<close>
definition specsOf :: "AttachedVolume list \<Rightarrow> nat list" where
  "specsOf vs = concat (map (\<lambda>v. case av_VolumeSpec v of None \<Rightarrow> [] | Some spec \<Rightarrow> [spec]) vs)"

definition allOfPlugin :: "'t operationExecutor \<Rightarrow> VolumePlugin \<Rightarrow> AttachedVolume list \<Rightarrow> bool" where
  "allOfPlugin oe volumePlugin vs =
     list_all (\<lambda>v. case av_VolumeSpec v of
                     None \<Rightarrow> False
                   | Some spec \<Rightarrow> FindPluginBySpec oe spec = (Some volumePlugin, None)) vs"

text \<open>The registry calls made under a volume key.\<close>
definition submissionsUnder ::
  "UniqueVolumeName \<Rightarrow> (UniqueVolumeName \<times> UniquePodName \<times> 't option) list \<Rightarrow>
   (UniqueVolumeName \<times> UniquePodName \<times> 't option) list" where
  "submissionsUnder volumeKey calls = filter (\<lambda>c. fst c = volumeKey) calls"

subsection \<open>Describing the effect on the world\<close>

text \<open>What the second loop of \<^verbatim>\<open>VerifyVolumesAreAttached\<close> does for one entry of the
  map, written with the registry's \<open>Run\<close>: generate the task, log a generation error,
  submit under (plugin name, empty pod name) whatever was generated, log a rejection.\<close>
definition submitOne ::
  "'t operationExecutor \<Rightarrow> ref \<Rightarrow> volumeSpecMaps \<Rightarrow> string \<times> (NodeName \<times> nat list) list \<Rightarrow>
   't world \<Rightarrow> 't world" where
  "submitOne oe actualStateOfWorld volumeSpecMapByPlugin entry w =
     (let call = bulkGenerateCall actualStateOfWorld volumeSpecMapByPlugin entry;
          generated = operationGenerator oe call;
          w1 = emit (Generate call) w;
          w2 = (case snd generated of
                  Some err \<Rightarrow> emit (Errorf (BulkGenerateError (fst entry) err)) w1
                | None \<Rightarrow> w1);
          answer = Run (fst entry) '''' (fst generated) w2
      in case fst answer of
           Some err \<Rightarrow> emit (Errorf (BulkRunError (fst entry) err)) (snd answer)
         | None \<Rightarrow> snd answer)"

text \<open>That step for the entries of the map in the order given.\<close>
definition submitAll ::
  "'t operationExecutor \<Rightarrow> ref \<Rightarrow> volumeSpecMaps \<Rightarrow> bulkVerifyPlugins \<Rightarrow> 't world \<Rightarrow> 't world" where
  "submitAll oe actualStateOfWorld volumeSpecMapByPlugin entries w =
     foldl (\<lambda>w' entry. submitOne oe actualStateOfWorld volumeSpecMapByPlugin entry w') w entries"

text \<open>The events that step leaves in the trace when the registry is in the state of
  \<open>w\<close>: the generator call, the line for a generation error, the call of \<open>Run\<close>, and then
  either the spawned task or the line for the rejection.\<close>
definition bulkEvents ::
  "'t operationExecutor \<Rightarrow> ref \<Rightarrow> volumeSpecMaps \<Rightarrow> 't world \<Rightarrow>
   string \<times> (NodeName \<times> nat list) list \<Rightarrow> 't event list" where
  "bulkEvents oe actualStateOfWorld volumeSpecMapByPlugin w entry =
     (let call = bulkGenerateCall actualStateOfWorld volumeSpecMapByPlugin entry;
          generated = operationGenerator oe call
      in [Generate call] @
         (case snd generated of
            Some err \<Rightarrow> [Errorf (BulkGenerateError (fst entry) err)]
          | None \<Rightarrow> []) @
         [RunCalled (fst entry) '''' (fst generated)] @
         (case acceptOrReject (fst entry) '''' w of
            None \<Rightarrow> [Spawned (fst generated)]
          | Some err \<Rightarrow> [Errorf (BulkRunError (fst entry) err)]))"

text \<open>The per-node fallback of the first loop: the call of
  \<^verbatim>\<open>VerifyVolumesAreAttachedPerNode\<close> with the node's list, and the line logged if it
  returns an error.\<close>
definition perNodeStep ::
  "'t operationExecutor \<Rightarrow> ref \<Rightarrow> NodeName \<Rightarrow> AttachedVolume list \<Rightarrow> 't world \<Rightarrow> 't world" where
  "perNodeStep oe actualStateOfWorld node nodeAttachedVolumes w =
     (case VerifyVolumesAreAttachedPerNode oe nodeAttachedVolumes node actualStateOfWorld w of
        (Some nodeError, w1) \<Rightarrow> emit (Errorf (PerNodeVerifyError node nodeError)) w1
      | (None, w1) \<Rightarrow> w1)"

text \<open>A sequence of calls of \<^verbatim>\<open>VerifyVolumesAreAttachedPerNode\<close>, none of whose tasks has
  completed in between.\<close>
fun perNodeCalls ::
  "'t operationExecutor \<Rightarrow> (AttachedVolume list \<times> NodeName \<times> ref) list \<Rightarrow> 't world \<Rightarrow> 't world" where
  "perNodeCalls oe [] w = w"
| "perNodeCalls oe (c # cs) w =
     perNodeCalls oe cs
       (snd (VerifyVolumesAreAttachedPerNode oe (fst c) (fst (snd c)) (snd (snd c)) w))"

text \<open>Whether the generator builds the task of every call of such a sequence.\<close>
definition allGenerated ::
  "'t operationExecutor \<Rightarrow> (AttachedVolume list \<times> NodeName \<times> ref) list \<Rightarrow> bool" where
  "allGenerated oe cs =
     list_all (\<lambda>c. snd (operationGenerator oe
                          (GenerateVolumesAreAttachedFunc (fst c) (fst (snd c)) (snd (snd c)))) =
                    None) cs"

subsection \<open>Invariant and scenarios\<close>

text \<open>No two running entries of the registry conflict, the sentinel entries apart.\<close>
fun exclusive :: "operation list \<Rightarrow> bool" where
  "exclusive [] = True"
| "exclusive (op # ops) =
     ((op_running op \<and> op_volumeName op \<noteq> EmptyUniqueVolumeName \<longrightarrow>
         \<not> isRunningConflict (op_volumeName op) (op_podName op) ops) \<and> exclusive ops)"


text \<open>Concrete worlds used to exercise the theorems: tasks are numbers, the backoff window
  is ten ticks whatever the number of failures.\<close>
definition constantWindow :: "nat \<Rightarrow> nat \<Rightarrow> nat" where
  "constantWindow d n = d"

definition world0 :: "nat world" where
  "world0 = NewOperationExecutor (constantWindow 10)"

definition sentinelOnce :: "nat world" where
  "sentinelOnce = snd (Run '''' '''' (Some 1) world0)"

definition sentinelTwice :: "nat world" where
  "sentinelTwice = snd (Run '''' '''' (Some 2) sentinelOnce)"

definition failedOnce :: "nat world" where
  "failedOnce =
     operationComplete ''vol2'' '''' (Some (Err ''attach failed''))
       (snd (Run ''vol2'' '''' (Some 1) world0))"

definition busyOther :: "nat world" where
  "busyOther = snd (Run ''vol1'' '''' (Some 2) failedOnce)"

definition attachRunning :: "nat world" where
  "attachRunning = snd (Run ''vol1'' '''' (Some 1) world0)"


text \<open>A generator that always succeeds, one that always fails, a plugin manager with a
  bulk-capable plugin \<open>A\<close> (specs at addresses 1 to 9), a plugin \<open>B\<close> without bulk
  verification (addresses from 10) and no plugin for the spec at address 0.\<close>
definition okGenerator :: "gen_call \<Rightarrow> nat option \<times> error option" where
  "okGenerator call =
     (case call of
        GenerateBulkVolumeVerifyFunc pluginNodeVolumes pluginName volumeSpecMap a \<Rightarrow>
          (Some 100, None)
      | GenerateVolumesAreAttachedFunc attachedVolumes nodeName a \<Rightarrow> (Some 200, None)
      | _ \<Rightarrow> (Some 7, None))"

definition failingGenerator :: "gen_call \<Rightarrow> nat option \<times> error option" where
  "failingGenerator call = (None, Some (Err ''cannot build task''))"

definition pluginA :: VolumePlugin where
  "pluginA = \<lparr>GetPluginName = ''A'', SupportsBulkVolumeVerification = True\<rparr>"

definition pluginB :: VolumePlugin where
  "pluginB = \<lparr>GetPluginName = ''B'', SupportsBulkVolumeVerification = False\<rparr>"

definition twoPlugins :: "nat \<Rightarrow> VolumePlugin option \<times> error option" where
  "twoPlugins spec =
     (if spec = 0 then (None, Some (Err ''no plugin''))
      else if spec < 10 then (Some pluginA, None)
      else (Some pluginB, None))"

definition podNames :: "ref \<Rightarrow> UniquePodName" where
  "podNames pod = (case pod of None \<Rightarrow> '''' | Some a \<Rightarrow> if a = 1 then ''pod1'' else ''pod2'')"

definition exampleExecutor :: "nat operationExecutor" where
  "exampleExecutor =
     \<lparr>operationGenerator = okGenerator, FindPluginBySpec = twoPlugins,
      GetUniquePodName = podNames\<rparr>"

definition failingExecutor :: "nat operationExecutor" where
  "failingExecutor =
     \<lparr>operationGenerator = failingGenerator, FindPluginBySpec = twoPlugins,
      GetUniquePodName = podNames\<rparr>"

definition volumeAt :: "NodeName \<Rightarrow> UniqueVolumeName \<Rightarrow> ref \<Rightarrow> AttachedVolume" where
  "volumeAt node name spec =
     \<lparr>av_VolumeName = name, av_VolumeSpec = spec, av_NodeName = node,
      av_PluginIsAttachable = True, av_DevicePath = ''/dev/disk''\<rparr>"

definition mountOf :: "bool \<Rightarrow> nat \<Rightarrow> VolumeToMount" where
  "mountOf attachable pod =
     \<lparr>vtm_VolumeName = ''vol1'', vtm_PodName = podNames (Some pod), vtm_VolumeSpec = Some 1,
      vtm_OuterVolumeSpecName = ''data'', vtm_Pod = Some pod,
      vtm_PluginIsAttachable = attachable, vtm_VolumeGidValue = '''', vtm_DevicePath = '''',
      vtm_ReportedInUse = True\<rparr>"

definition attachOf :: "UniqueVolumeName \<Rightarrow> VolumeToAttach" where
  "attachOf name =
     \<lparr>vta_VolumeName = name, vta_VolumeSpec = Some 1, vta_NodeName = ''node1'',
      vta_ScheduledPods = []\<rparr>"

definition unmountOf :: "UID \<Rightarrow> MountedVolume" where
  "unmountOf uid =
     \<lparr>mv_PodName = uid, mv_VolumeName = ''vol1'', mv_InnerVolumeSpecName = ''pv'',
      mv_OuterVolumeSpecName = ''data'', mv_PluginName = ''A'', mv_PodUID = uid,
      mv_Mounter = None, mv_VolumeGidValue = ''''\<rparr>"

text \<open>A generator that fails for bulk verification only, and inputs for the two-node
  scenarios: on each node a volume of plugin \<open>A\<close> and a volume of plugin \<open>B\<close>, in
  either order, and a node whose only volume has no plugin.\<close>
definition bulkFailingGenerator :: "gen_call \<Rightarrow> nat option \<times> error option" where
  "bulkFailingGenerator call =
     (case call of
        GenerateBulkVolumeVerifyFunc pluginNodeVolumes pluginName volumeSpecMap a \<Rightarrow>
          (None, Some (Err ''bulk verification unavailable''))
      | _ \<Rightarrow> (Some 7, None))"

definition bulkFailingExecutor :: "nat operationExecutor" where
  "bulkFailingExecutor =
     \<lparr>operationGenerator = bulkFailingGenerator, FindPluginBySpec = twoPlugins,
      GetUniquePodName = podNames\<rparr>"

definition bulkFirst :: "(NodeName \<times> AttachedVolume list) list" where
  "bulkFirst =
     [(''node1'', [volumeAt ''node1'' ''a1'' (Some 1), volumeAt ''node1'' ''b1'' (Some 11)]),
      (''node2'', [volumeAt ''node2'' ''a2'' (Some 2), volumeAt ''node2'' ''b2'' (Some 12)])]"

definition bulkLast :: "(NodeName \<times> AttachedVolume list) list" where
  "bulkLast =
     [(''node1'', [volumeAt ''node1'' ''b1'' (Some 11), volumeAt ''node1'' ''a1'' (Some 1)]),
      (''node2'', [volumeAt ''node2'' ''b2'' (Some 12), volumeAt ''node2'' ''a2'' (Some 2)])]"

definition unresolvedOnly :: "(NodeName \<times> AttachedVolume list) list" where
  "unresolvedOnly = [(''node1'', [volumeAt ''node1'' ''vol0'' (Some 0)])]"


text \<open>An executor for which the pod at address 3 has the empty unique name, and mounts of
  a volume of any name.\<close>
definition podNamesWithEmpty :: "ref \<Rightarrow> UniquePodName" where
  "podNamesWithEmpty pod =
     (case pod of None \<Rightarrow> '''' | Some a \<Rightarrow> if a = 1 then ''pod1'' else if a = 2 then ''pod2'' else '''')"

definition emptyNameExecutor :: "nat operationExecutor" where
  "emptyNameExecutor =
     \<lparr>operationGenerator = okGenerator, FindPluginBySpec = twoPlugins,
      GetUniquePodName = podNamesWithEmpty\<rparr>"

definition mountNamed :: "UniqueVolumeName \<Rightarrow> bool \<Rightarrow> nat \<Rightarrow> VolumeToMount" where
  "mountNamed name attachable pod =
     \<lparr>vtm_VolumeName = name, vtm_PodName = podNamesWithEmpty (Some pod), vtm_VolumeSpec = Some 1,
      vtm_OuterVolumeSpecName = ''data'', vtm_Pod = Some pod,
      vtm_PluginIsAttachable = attachable, vtm_VolumeGidValue = '''', vtm_DevicePath = '''',
      vtm_ReportedInUse = True\<rparr>"

section \<open>Verification\<close>

subsection \<open>The registry\<close>

lemma isRunningConflict_Nil: "isRunningConflict v p [] = False"
  by (simp add: isRunningConflict_def)

lemma isRunningConflict_Cons:
  "isRunningConflict v p (op # ops) \<longleftrightarrow>
     (op_running op \<and> conflictsWith v p op) \<or> isRunningConflict v p ops"
  by (simp add: isRunningConflict_def)

lemma isRunningConflict_append:
  "isRunningConflict v p (xs @ ys) \<longleftrightarrow> isRunningConflict v p xs \<or> isRunningConflict v p ys"
  by (simp add: isRunningConflict_def list_ex_iff) blast

lemma conflictsWith_sym:
  "conflictsWith (op_volumeName a) (op_podName a) b \<longleftrightarrow>
   conflictsWith (op_volumeName b) (op_podName b) a"
  by (auto simp: conflictsWith_def)

lemma conflictsWith_newOperation:
  "conflictsWith a b (newOperation v p) \<longleftrightarrow>
     v = a \<and> (p = EmptyUniquePodName \<or> b = EmptyUniquePodName \<or> p = b)"
  by (simp add: conflictsWith_def newOperation_def)

lemma conflictsWith_hasKey:
  "hasKey v p op \<Longrightarrow> conflictsWith a b op \<longleftrightarrow>
     v = a \<and> (p = EmptyUniquePodName \<or> b = EmptyUniquePodName \<or> p = b)"
  by (auto simp: conflictsWith_def hasKey_def)

lemma newOperation_sel:
  "op_running (newOperation v p)" "op_volumeName (newOperation v p) = v"
  "op_podName (newOperation v p) = p"
  by (simp_all add: newOperation_def)

lemma isRunningConflict_markBusy:
  "isRunningConflict a b (markBusy v p ops) \<longleftrightarrow>
     isRunningConflict a b ops \<or>
     (v = a \<and> (p = EmptyUniquePodName \<or> b = EmptyUniquePodName \<or> p = b))"
proof (induction ops)
  case Nil
  show ?case
    by (simp add: isRunningConflict_Cons isRunningConflict_Nil conflictsWith_newOperation
        newOperation_sel)
next
  case (Cons op ops)
  show ?case
  proof (cases "hasKey v p op")
    case True
    have "conflictsWith a b (op\<lparr>op_running := True\<rparr>) = conflictsWith a b op"
      by (simp add: conflictsWith_def)
    with True show ?thesis
      using conflictsWith_hasKey[OF True, of a b]
      by (auto simp: isRunningConflict_Cons)
  next
    case False
    with Cons show ?thesis by (auto simp: isRunningConflict_Cons)
  qed
qed

lemma exclusive_append_sentinel:
  "exclusive ops \<Longrightarrow> exclusive (ops @ [newOperation EmptyUniqueVolumeName p])"
proof (induction ops)
  case Nil
  then show ?case by (simp add: newOperation_sel isRunningConflict_Nil)
next
  case (Cons op ops)
  then show ?case
    by (auto simp: isRunningConflict_append isRunningConflict_Cons isRunningConflict_Nil
        conflictsWith_newOperation)
qed

lemma exclusive_markBusy:
  "exclusive ops \<Longrightarrow> \<not> isRunningConflict v p ops \<Longrightarrow> exclusive (markBusy v p ops)"
proof (induction ops)
  case Nil
  then show ?case by (simp add: isRunningConflict_Nil)
next
  case (Cons op ops)
  show ?case
  proof (cases "hasKey v p op")
    case True
    then have k: "op_volumeName op = v" "op_podName op = p" by (auto simp: hasKey_def)
    from Cons.prems have "\<not> isRunningConflict v p ops" "exclusive ops"
      by (auto simp: isRunningConflict_Cons)
    with True k show ?thesis by simp
  next
    case False
    from Cons.prems have nc: "\<not> isRunningConflict v p ops"
      and nop: "\<not> (op_running op \<and> conflictsWith v p op)"
      and ex: "exclusive ops"
      by (auto simp: isRunningConflict_Cons)
    have ih: "exclusive (markBusy v p ops)" using Cons.IH ex nc .
    have "\<not> isRunningConflict (op_volumeName op) (op_podName op) (markBusy v p ops)"
      if r: "op_running op" and ne: "op_volumeName op \<noteq> EmptyUniqueVolumeName"
    proof -
      from Cons.prems r ne
      have a: "\<not> isRunningConflict (op_volumeName op) (op_podName op) ops" by simp
      from nop r have "\<not> conflictsWith v p op" by simp
      then have b: "\<not> (v = op_volumeName op \<and>
          (p = EmptyUniquePodName \<or> op_podName op = EmptyUniquePodName \<or> p = op_podName op))"
        by (auto simp: conflictsWith_def)
      from a b show ?thesis by (simp add: isRunningConflict_markBusy)
    qed
    with False ih show ?thesis by simp
  qed
qed

lemma finish_key:
  "op_volumeName (finish grm now r op) = op_volumeName op"
  "op_podName (finish grm now r op) = op_podName op"
  "op_running (finish grm now r op) = False"
  by (simp_all add: finish_def split: option.splits)

lemma isRunningConflict_completeFirst:
  "isRunningConflict a b (completeFirst grm now v p r ops) \<Longrightarrow> isRunningConflict a b ops"
  by (induction ops) (auto simp: isRunningConflict_Cons finish_key split: if_splits)

lemma exclusive_completeFirst:
  "exclusive ops \<Longrightarrow> exclusive (completeFirst grm now v p r ops)"
  by (induction ops) (auto simp: finish_key dest: isRunningConflict_completeFirst)

lemma operations_setOperations: "operations (pendingOperations (setOperations ops w)) = ops"
  by (simp add: setOperations_def)

lemma operations_emit: "pendingOperations (emit e w) = pendingOperations w"
  by (simp add: emit_def)

lemma clock_emit: "clock (emit e w) = clock w"
  by (simp add: emit_def)

lemma operations_Run:
  "operations (pendingOperations (snd (Run v p t w))) =
     (let ops = operations (pendingOperations w)
      in if v = EmptyUniqueVolumeName then ops @ [newOperation v p]
         else if isRunningConflict v p ops \<or> inBackoffWindow (clock w) v p ops then ops
         else markBusy v p ops)"
  by (simp add: Run_def Let_def operations_emit operations_setOperations clock_emit)

lemma reachable_exclusive: "reachable w \<Longrightarrow> exclusive (operations (pendingOperations w))"
proof (induction rule: reachable.induct)
  case (reachable_new backoff window)
  show ?case by (simp add: newWorld_def NewNestedPendingOperations_def)
next
  case (reachable_Run w volumeKey podKey task)
  then show ?case
    by (simp add: operations_Run Let_def exclusive_append_sentinel exclusive_markBusy)
next
  case (reachable_complete w volumeKey podKey outcome)
  then show ?case
    by (simp add: operationComplete_def operations_setOperations exclusive_completeFirst)
next
  case (reachable_clock w d)
  then show ?case by (simp add: advanceClock_def)
qed

lemma exclusive_running_le1:
  "exclusive ops \<Longrightarrow> v \<noteq> EmptyUniqueVolumeName \<Longrightarrow>
   length (filter (\<lambda>op. op_running op \<and> hasKey v p op) ops) \<le> 1"
proof (induction ops)
  case Nil
  then show ?case by simp
next
  case (Cons op ops)
  show ?case
  proof (cases "op_running op \<and> hasKey v p op")
    case True
    then have k: "op_volumeName op = v" "op_podName op = p" by (auto simp: hasKey_def)
    from Cons.prems True k have "\<not> isRunningConflict v p ops" by simp
    then have "filter (\<lambda>op. op_running op \<and> hasKey v p op) ops = []"
      by (auto simp: isRunningConflict_def list_ex_iff filter_empty_conv conflictsWith_def
          hasKey_def)
    moreover from True
    have "filter (\<lambda>op. op_running op \<and> hasKey v p op) (op # ops) =
        op # filter (\<lambda>op. op_running op \<and> hasKey v p op) ops" by simp
    ultimately show ?thesis by simp
  next
    case False
    then have "filter (\<lambda>op. op_running op \<and> hasKey v p op) (op # ops) =
        filter (\<lambda>op. op_running op \<and> hasKey v p op) ops" by auto
    moreover from Cons have "length (filter (\<lambda>op. op_running op \<and> hasKey v p op) ops) \<le> 1"
      by simp
    ultimately show ?thesis by simp
  qed
qed


lemmas registry_eval =
  Run_def Let_def emit_def setOperations_def newWorld_def NewNestedPendingOperations_def
  NewOperationExecutor_def isRunningConflict_def conflictsWith_def inBackoffWindow_def
  hasKey_def newOperation_def runningUnder_def EmptyUniqueVolumeName_def
  EmptyUniquePodName_def operationComplete_def finish_def advanceClock_def constantWindow_def

lemma list_ex_markBusy: "list_ex (\<lambda>op. op_running op \<and> hasKey v p op) (markBusy v p ops)"
  by (induction ops) (auto simp: newOperation_def hasKey_def)

lemma trace_emit: "trace (emit e w) = trace w @ [e]"
  by (simp add: emit_def)

lemma trace_setOperations: "trace (setOperations ops w) = trace w"
  by (simp add: setOperations_def)

lemma Run_rejected:
  "v \<noteq> EmptyUniqueVolumeName \<Longrightarrow> isRunningConflict v p (operations (pendingOperations w)) \<Longrightarrow>
   Run v p t w = (Some (OperationAlreadyExistsError v p), emit (RunCalled v p t) w)"
  by (simp add: Run_def Let_def operations_emit)

lemma Run_accepted:
  "\<not> isRunningConflict v p (operations (pendingOperations w)) \<Longrightarrow>
   \<not> inBackoffWindow (clock w) v p (operations (pendingOperations w)) \<Longrightarrow>
   fst (Run v p t w) = None \<and> trace (snd (Run v p t w)) = trace w @ [RunCalled v p t, Spawned t]"
  by (simp add: Run_def Let_def operations_emit clock_emit trace_emit trace_setOperations)

text \<open>
  Claim C1, as amended. In every reachable state of the registry and for every key whose
  volume identifier is not the empty sentinel, at most one entry is running under the
  key; a \<open>Run\<close> whose key conflicts with a running entry returns
  \<open>OperationAlreadyExistsError\<close> at once and leaves the registry as it was (nothing is
  queued or spawned); a \<open>Run\<close> whose key conflicts with no running entry and is not inside
  its own backoff window is accepted, spawns the task and makes the key the one running
  entry.
\<close>
theorem registry_one_running_per_key:
  assumes "reachable w" and "volumeKey \<noteq> EmptyUniqueVolumeName"
  shows "runningUnder volumeKey podKey w \<le> 1 \<and>
    (isRunningConflict volumeKey podKey (operations (pendingOperations w)) \<longrightarrow>
       Run volumeKey podKey task w =
         (Some (OperationAlreadyExistsError volumeKey podKey),
          emit (RunCalled volumeKey podKey task) w)) \<and>
    (\<not> isRunningConflict volumeKey podKey (operations (pendingOperations w)) \<and>
     \<not> inBackoffWindow (clock w) volumeKey podKey (operations (pendingOperations w)) \<longrightarrow>
       fst (Run volumeKey podKey task w) = None \<and>
       trace (snd (Run volumeKey podKey task w)) =
         trace w @ [RunCalled volumeKey podKey task, Spawned task] \<and>
       runningUnder volumeKey podKey (snd (Run volumeKey podKey task w)) = 1)"
proof (intro conjI impI)
  show "runningUnder volumeKey podKey w \<le> 1"
    unfolding runningUnder_def
    using exclusive_running_le1[OF reachable_exclusive[OF assms(1)] assms(2)] .
next
  assume "isRunningConflict volumeKey podKey (operations (pendingOperations w))"
  then show "Run volumeKey podKey task w =
      (Some (OperationAlreadyExistsError volumeKey podKey),
       emit (RunCalled volumeKey podKey task) w)"
    using assms(2) by (rule Run_rejected[rotated])
next
  assume a: "\<not> isRunningConflict volumeKey podKey (operations (pendingOperations w)) \<and>
     \<not> inBackoffWindow (clock w) volumeKey podKey (operations (pendingOperations w))"
  then show "fst (Run volumeKey podKey task w) = None"
    and "trace (snd (Run volumeKey podKey task w)) =
         trace w @ [RunCalled volumeKey podKey task, Spawned task]"
    using Run_accepted[of volumeKey podKey w task] by simp_all
  let ?w' = "snd (Run volumeKey podKey task w)"
  have "reachable ?w'" using assms(1) by (rule reachable_Run)
  then have le: "runningUnder volumeKey podKey ?w' \<le> 1"
    unfolding runningUnder_def
    using exclusive_running_le1[OF reachable_exclusive assms(2)] by blast
  have "operations (pendingOperations ?w') =
      markBusy volumeKey podKey (operations (pendingOperations w))"
    using a assms(2) by (simp add: operations_Run)
  then have "filter (\<lambda>op. op_running op \<and> hasKey volumeKey podKey op)
      (operations (pendingOperations ?w')) \<noteq> []"
    using list_ex_markBusy[of volumeKey podKey "operations (pendingOperations w)"]
    by (simp add: filter_empty_conv list_ex_iff)
  then have "runningUnder volumeKey podKey ?w' \<ge> 1"
    unfolding runningUnder_def by (cases "filter (\<lambda>op. op_running op \<and> hasKey volumeKey podKey op)
      (operations (pendingOperations ?w'))") simp_all
  with le show "runningUnder volumeKey podKey ?w' = 1" by simp
qed

lemma reachable_world0: "reachable world0"
  unfolding world0_def NewOperationExecutor_def by (rule reachable_new)

text \<open>With an attach of \<open>vol1\<close> running: a mount of \<open>vol1\<close> for a pod is rejected, a mount of
  \<open>vol2\<close> is accepted and is then the one operation running under its key.\<close>
theorem registry_one_running_per_key_witness:
  "reachable attachRunning \<and> ''vol1'' \<noteq> EmptyUniqueVolumeName \<and>
   runningUnder ''vol1'' '''' attachRunning = 1 \<and>
   isRunningConflict ''vol1'' ''pod1'' (operations (pendingOperations attachRunning)) \<and>
   Run ''vol1'' ''pod1'' (Some 2) attachRunning =
     (Some (OperationAlreadyExistsError ''vol1'' ''pod1''),
      emit (RunCalled ''vol1'' ''pod1'' (Some 2)) attachRunning) \<and>
   \<not> isRunningConflict ''vol2'' ''pod1'' (operations (pendingOperations attachRunning)) \<and>
   \<not> inBackoffWindow (clock attachRunning) ''vol2'' ''pod1''
       (operations (pendingOperations attachRunning)) \<and>
   fst (Run ''vol2'' ''pod1'' (Some 2) attachRunning) = None \<and>
   runningUnder ''vol2'' ''pod1'' (snd (Run ''vol2'' ''pod1'' (Some 2) attachRunning)) = 1"
proof -
  have r: "reachable attachRunning"
    unfolding attachRunning_def using reachable_world0 by (rule reachable_Run)
  have n1: "''vol1'' \<noteq> EmptyUniqueVolumeName" and n2: "''vol2'' \<noteq> EmptyUniqueVolumeName"
    by (simp_all add: EmptyUniqueVolumeName_def)
  have c: "isRunningConflict ''vol1'' ''pod1'' (operations (pendingOperations attachRunning))"
    by (simp add: attachRunning_def world0_def registry_eval)
  have nc: "\<not> isRunningConflict ''vol2'' ''pod1'' (operations (pendingOperations attachRunning))"
    "\<not> inBackoffWindow (clock attachRunning) ''vol2'' ''pod1''
       (operations (pendingOperations attachRunning))"
    by (simp_all add: attachRunning_def world0_def registry_eval)
  have one: "runningUnder ''vol1'' '''' attachRunning = 1"
    by (simp add: attachRunning_def world0_def registry_eval)
  show ?thesis
    using registry_one_running_per_key[OF r n1, of "''pod1''" "Some 2"]
      registry_one_running_per_key[OF r n2, of "''pod1''" "Some 2"] r n1 c nc one
    by simp
qed

text \<open>
  The claim as stated fails at the sentinel key and inside a backoff window. After one
  accepted \<open>Run\<close> under the key (empty volume, empty pod) a second one under the same key,
  which the conflict rule calls a conflict, is accepted, and two entries run under that
  key. And while only \<open>vol1\<close> is running, a \<open>Run\<close> for \<open>vol2\<close>, whose last task failed, is
  rejected though it conflicts with nothing.
\<close>
theorem registry_sentinel_and_backoff_counterexample:
  "reachable sentinelTwice \<and>
   isRunningConflict '''' '''' (operations (pendingOperations sentinelOnce)) \<and>
   fst (Run '''' '''' (Some 2) sentinelOnce) = None \<and>
   runningUnder '''' '''' sentinelTwice = 2 \<and>
   \<not> isRunningConflict ''vol2'' '''' (operations (pendingOperations busyOther)) \<and>
   fst (Run ''vol2'' '''' (Some 3) busyOther) = Some (ExponentialBackoffError ''vol2'' '''')"
proof -
  have "reachable sentinelTwice"
    unfolding sentinelTwice_def sentinelOnce_def
    by (intro reachable_Run reachable_world0)
  moreover have "isRunningConflict '''' '''' (operations (pendingOperations sentinelOnce))"
    by (simp add: sentinelOnce_def world0_def registry_eval)
  moreover have "fst (Run '''' '''' (Some 2) sentinelOnce) = None"
    by (simp add: sentinelOnce_def world0_def registry_eval)
  moreover have "runningUnder '''' '''' sentinelTwice = 2"
    by (simp add: sentinelTwice_def sentinelOnce_def world0_def registry_eval)
  moreover have "\<not> isRunningConflict ''vol2'' '''' (operations (pendingOperations busyOther))"
    by (simp add: busyOther_def failedOnce_def world0_def registry_eval)
  moreover have "fst (Run ''vol2'' '''' (Some 3) busyOther) =
      Some (ExponentialBackoffError ''vol2'' '''')"
    by (simp add: busyOther_def failedOnce_def world0_def registry_eval)
  ultimately show ?thesis by simp
qed


subsection \<open>The verbs\<close>

lemma runCalls_append: "runCalls (xs @ ys) = runCalls xs @ runCalls ys"
  by (simp add: runCalls_def)

lemma generateCalls_append: "generateCalls (xs @ ys) = generateCalls xs @ generateCalls ys"
  by (simp add: generateCalls_def)

lemma errorLines_append: "errorLines (xs @ ys) = errorLines xs @ errorLines ys"
  by (simp add: errorLines_def)

lemma trace_Run:
  "trace (snd (Run v p t w)) =
     trace w @ RunCalled v p t # (if fst (Run v p t w) = None then [Spawned t] else [])"
  by (simp add: Run_def Let_def trace_emit trace_setOperations)

lemma runCalls_Run: "runCalls (trace (snd (Run v p t w))) = runCalls (trace w) @ [(v, p, t)]"
  by (simp add: trace_Run runCalls_append) (simp add: runCalls_def)

lemma generateCalls_Run: "generateCalls (trace (snd (Run v p t w))) = generateCalls (trace w)"
  by (simp add: trace_Run generateCalls_append) (simp add: generateCalls_def)

lemma errorLines_Run: "errorLines (trace (snd (Run v p t w))) = errorLines (trace w)"
  by (simp add: trace_Run errorLines_append) (simp add: errorLines_def)

lemma fst_Run: "fst (Run v p t w) = acceptOrReject v p w"
  by (simp add: Run_def acceptOrReject_def Let_def operations_emit clock_emit)

lemma acceptOrReject_emit: "acceptOrReject v p (emit e w) = acceptOrReject v p w"
  by (simp add: acceptOrReject_def Let_def operations_emit clock_emit)

lemma runCalls_emit_Generate: "runCalls (trace (emit (Generate c) w)) = runCalls (trace w)"
  by (simp add: trace_emit runCalls_append) (simp add: runCalls_def)

lemma runCalls_emit_Errorf: "runCalls (trace (emit (Errorf l) w)) = runCalls (trace w)"
  by (simp add: trace_emit runCalls_append) (simp add: runCalls_def)

lemma runCalls_AttachVolume:
  "runCalls (trace (snd (AttachVolume oe v a w))) =
     runCalls (trace w) @ submission oe (GenerateAttachVolumeFunc v a) (vta_VolumeName v) ''''"
  by (simp add: AttachVolume_def generate_def submission_def runCalls_Run runCalls_emit_Generate
      split: prod.splits option.splits)

lemma runCalls_DetachVolume:
  "runCalls (trace (snd (DetachVolume oe v b a w))) =
     runCalls (trace w) @ submission oe (GenerateDetachVolumeFunc v b a) (av_VolumeName v) ''''"
  by (simp add: DetachVolume_def generate_def submission_def runCalls_Run runCalls_emit_Generate
      split: prod.splits option.splits)

lemma runCalls_UnmountDevice:
  "runCalls (trace (snd (UnmountDevice oe v a m w))) =
     runCalls (trace w) @ submission oe (GenerateUnmountDeviceFunc v a m) (av_VolumeName v) ''''"
  by (simp add: UnmountDevice_def generate_def submission_def runCalls_Run runCalls_emit_Generate
      split: prod.splits option.splits)

lemma runCalls_VerifyControllerAttachedVolume:
  "runCalls (trace (snd (VerifyControllerAttachedVolume oe v n a w))) =
     runCalls (trace w) @
     submission oe (GenerateVerifyControllerAttachedVolumeFunc v n a) (vtm_VolumeName v) ''''"
  by (simp add: VerifyControllerAttachedVolume_def generate_def submission_def runCalls_Run
      runCalls_emit_Generate split: prod.splits option.splits)

lemma runCalls_UnmountVolume:
  "runCalls (trace (snd (UnmountVolume oe v a w))) =
     runCalls (trace w) @
     submission oe (GenerateUnmountVolumeFunc v a) (mv_VolumeName v) (mv_PodUID v)"
  by (simp add: UnmountVolume_def generate_def submission_def runCalls_Run runCalls_emit_Generate
      split: prod.splits option.splits)

lemma runCalls_MountVolume:
  "runCalls (trace (snd (MountVolume oe t v a w))) =
     runCalls (trace w) @
     submission oe (GenerateMountVolumeFunc t v a) (vtm_VolumeName v) (mountPodKey oe v)"
  by (simp add: MountVolume_def generate_def submission_def runCalls_Run runCalls_emit_Generate
      mountPodKey_def split: prod.splits option.splits)

lemma runCalls_VerifyVolumesAreAttachedPerNode:
  "runCalls (trace (snd (VerifyVolumesAreAttachedPerNode oe vs n a w))) =
     runCalls (trace w) @ submission oe (GenerateVolumesAreAttachedFunc vs n a) '''' ''''"
  by (simp add: VerifyVolumesAreAttachedPerNode_def generate_def submission_def runCalls_Run
      runCalls_emit_Generate split: prod.splits option.splits)


lemma AttachVolume_template:
  "AttachVolume oe v a w = verbTemplate oe (GenerateAttachVolumeFunc v a) (vta_VolumeName v) '''' w"
  by (simp add: AttachVolume_def verbTemplate_def generate_def split: prod.splits option.splits)

lemma DetachVolume_template:
  "DetachVolume oe v b a w =
     verbTemplate oe (GenerateDetachVolumeFunc v b a) (av_VolumeName v) '''' w"
  by (simp add: DetachVolume_def verbTemplate_def generate_def split: prod.splits option.splits)

lemma MountVolume_template:
  "MountVolume oe t v a w =
     verbTemplate oe (GenerateMountVolumeFunc t v a) (vtm_VolumeName v) (mountPodKey oe v) w"
  by (simp add: MountVolume_def verbTemplate_def generate_def mountPodKey_def
      split: prod.splits option.splits)

lemma UnmountVolume_template:
  "UnmountVolume oe v a w =
     verbTemplate oe (GenerateUnmountVolumeFunc v a) (mv_VolumeName v) (mv_PodUID v) w"
  by (simp add: UnmountVolume_def verbTemplate_def generate_def split: prod.splits option.splits)

lemma UnmountDevice_template:
  "UnmountDevice oe v a m w =
     verbTemplate oe (GenerateUnmountDeviceFunc v a m) (av_VolumeName v) '''' w"
  by (simp add: UnmountDevice_def verbTemplate_def generate_def split: prod.splits option.splits)

lemma VerifyControllerAttachedVolume_template:
  "VerifyControllerAttachedVolume oe v n a w =
     verbTemplate oe (GenerateVerifyControllerAttachedVolumeFunc v n a) (vtm_VolumeName v) '''' w"
  by (simp add: VerifyControllerAttachedVolume_def verbTemplate_def generate_def
      split: prod.splits option.splits)

lemma fst_verbTemplate:
  "fst (verbTemplate oe call v p w) =
     (case operationGenerator oe call of
        (task, Some err) \<Rightarrow> Some err
      | (task, None) \<Rightarrow> acceptOrReject v p w)"
  by (simp add: verbTemplate_def fst_Run acceptOrReject_emit split: prod.splits option.splits)

lemma snd_verbTemplate_failed:
  "snd (operationGenerator oe call) \<noteq> None \<Longrightarrow>
   snd (verbTemplate oe call v p w) = emit (Generate call) w"
  by (auto simp: verbTemplate_def split: prod.splits option.splits)

text \<open>
  Claim C8. Each of the six verbs is the template: when the generator fails the verb
  returns the generator's error and does nothing but the generator call (nothing reaches
  the registry); otherwise it returns what the registry answers to the submission. That
  answer, \<open>acceptOrReject\<close>, is read off the registry's state and the key at the moment
  of the call: the task and what it later returns are not among its arguments.
\<close>
theorem verbs_return_generation_error_or_registry_answer:
  "AttachVolume oe volumeToAttach attacherUpdater w =
     verbTemplate oe (GenerateAttachVolumeFunc volumeToAttach attacherUpdater)
       (vta_VolumeName volumeToAttach) '''' w \<and>
   DetachVolume oe volumeToDetach verifySafeToDetach attacherUpdater w =
     verbTemplate oe (GenerateDetachVolumeFunc volumeToDetach verifySafeToDetach attacherUpdater)
       (av_VolumeName volumeToDetach) '''' w \<and>
   MountVolume oe waitForAttachTimeout volumeToMount mounterUpdater w =
     verbTemplate oe (GenerateMountVolumeFunc waitForAttachTimeout volumeToMount mounterUpdater)
       (vtm_VolumeName volumeToMount) (mountPodKey oe volumeToMount) w \<and>
   UnmountVolume oe volumeToUnmount mounterUpdater w =
     verbTemplate oe (GenerateUnmountVolumeFunc volumeToUnmount mounterUpdater)
       (mv_VolumeName volumeToUnmount) (mv_PodUID volumeToUnmount) w \<and>
   UnmountDevice oe deviceToDetach mounterUpdater mounter w =
     verbTemplate oe (GenerateUnmountDeviceFunc deviceToDetach mounterUpdater mounter)
       (av_VolumeName deviceToDetach) '''' w \<and>
   VerifyControllerAttachedVolume oe volumeToMount nodeName attacherUpdater w =
     verbTemplate oe
       (GenerateVerifyControllerAttachedVolumeFunc volumeToMount nodeName attacherUpdater)
       (vtm_VolumeName volumeToMount) '''' w \<and>
   fst (verbTemplate oe call volumeKey podKey w) =
     (case operationGenerator oe call of
        (task, Some err) \<Rightarrow> Some err
      | (task, None) \<Rightarrow> acceptOrReject volumeKey podKey w) \<and>
   (snd (operationGenerator oe call) \<noteq> None \<longrightarrow>
      snd (verbTemplate oe call volumeKey podKey w) = emit (Generate call) w) \<and>
   fst (Run volumeKey podKey anyTask w) = acceptOrReject volumeKey podKey w"
proof (intro conjI impI)
  assume "snd (operationGenerator oe call) \<noteq> None"
  then show "snd (verbTemplate oe call volumeKey podKey w) = emit (Generate call) w"
    by (rule snd_verbTemplate_failed)
qed (simp_all only: AttachVolume_template DetachVolume_template MountVolume_template
      UnmountVolume_template UnmountDevice_template VerifyControllerAttachedVolume_template
      fst_verbTemplate fst_Run)

lemma runCalls_of_volume_key_verbs:
  "runCalls (trace (snd (AttachVolume oe volumeToAttach attacherUpdater w))) =
     runCalls (trace w) @
     submission oe (GenerateAttachVolumeFunc volumeToAttach attacherUpdater)
       (vta_VolumeName volumeToAttach) '''' \<and>
   runCalls (trace (snd (DetachVolume oe volumeToDetach verifySafeToDetach attacherUpdater w))) =
     runCalls (trace w) @
     submission oe (GenerateDetachVolumeFunc volumeToDetach verifySafeToDetach attacherUpdater)
       (av_VolumeName volumeToDetach) '''' \<and>
   runCalls (trace (snd (UnmountDevice oe deviceToDetach mounterUpdater mounter w))) =
     runCalls (trace w) @
     submission oe (GenerateUnmountDeviceFunc deviceToDetach mounterUpdater mounter)
       (av_VolumeName deviceToDetach) '''' \<and>
   runCalls (trace (snd (VerifyControllerAttachedVolume oe volumeToMount nodeName
       attacherUpdater w))) =
     runCalls (trace w) @
     submission oe
       (GenerateVerifyControllerAttachedVolumeFunc volumeToMount nodeName attacherUpdater)
       (vtm_VolumeName volumeToMount) '''' \<and>
   runCalls (trace (snd (UnmountVolume oe volumeToUnmount mounterUpdater w))) =
     runCalls (trace w) @
     submission oe (GenerateUnmountVolumeFunc volumeToUnmount mounterUpdater)
       (mv_VolumeName volumeToUnmount) (mv_PodUID volumeToUnmount)"
  by (simp only: runCalls_AttachVolume runCalls_DetachVolume runCalls_UnmountDevice
      runCalls_VerifyControllerAttachedVolume runCalls_UnmountVolume simp_thms)

lemma find_markBusy_other:
  "(v, p) \<noteq> (a, b) \<Longrightarrow>
   map_option op_retryAfter (find (hasKey a b) (markBusy v p ops)) =
   map_option op_retryAfter (find (hasKey a b) ops)"
  by (induction ops) (auto simp: hasKey_def newOperation_def)

lemma inBackoffWindow_markBusy_other:
  "(v, p) \<noteq> (a, b) \<Longrightarrow>
   inBackoffWindow now a b (markBusy v p ops) = inBackoffWindow now a b ops"
  using find_markBusy_other[of v p a b ops]
  by (auto simp: inBackoffWindow_def split: option.splits)

lemma clock_Run: "clock (snd (Run v p t w)) = clock w"
  by (simp add: Run_def Let_def emit_def setOperations_def)

lemma acceptOrReject_after_accept:
  assumes "fst (Run v p t w) = None" and "v \<noteq> EmptyUniqueVolumeName"
  shows "acceptOrReject v q (snd (Run v p t w)) =
     (if p = EmptyUniquePodName \<or> q = EmptyUniquePodName \<or> p = q
      then Some (OperationAlreadyExistsError v q) else acceptOrReject v q w)"
proof -
  from assms have ops: "operations (pendingOperations (snd (Run v p t w))) =
      markBusy v p (operations (pendingOperations w))"
    by (auto simp: operations_Run fst_Run acceptOrReject_def Let_def split: if_splits)
  show ?thesis
  proof (cases "p = EmptyUniquePodName \<or> q = EmptyUniquePodName \<or> p = q")
    case True
    then show ?thesis using assms(2)
      by (simp add: acceptOrReject_def Let_def ops isRunningConflict_markBusy)
  next
    case False
    then have "(v, p) \<noteq> (v, q)" by simp
    from inBackoffWindow_markBusy_other[OF this] False assms(2) show ?thesis
      by (simp add: acceptOrReject_def Let_def ops isRunningConflict_markBusy clock_Run)
  qed
qed

lemma runCalls_and_conflict_of_MountVolume:
  "runCalls (trace (snd (MountVolume oe timeout m a w))) =
     runCalls (trace w) @
     submission oe (GenerateMountVolumeFunc timeout m a) (vtm_VolumeName m)
       (if vtm_PluginIsAttachable m then '''' else GetUniquePodName oe (vtm_Pod m)) \<and>
   (vtm_VolumeName m2 = vtm_VolumeName m \<and>
    vtm_PluginIsAttachable m2 = vtm_PluginIsAttachable m \<and>
    GetUniquePodName oe (vtm_Pod m) \<noteq> GetUniquePodName oe (vtm_Pod m2) \<and>
    GetUniquePodName oe (vtm_Pod m) \<noteq> '''' \<and> GetUniquePodName oe (vtm_Pod m2) \<noteq> '''' \<longrightarrow>
      (conflictsWith (vtm_VolumeName m2) (mountPodKey oe m2)
         (newOperation (vtm_VolumeName m) (mountPodKey oe m)) \<longleftrightarrow> vtm_PluginIsAttachable m) \<and>
      (vtm_VolumeName m \<noteq> '''' \<and>
       snd (operationGenerator oe (GenerateMountVolumeFunc timeout2 m2 a2)) = None \<and>
       fst (MountVolume oe timeout m a w) = None \<longrightarrow>
         fst (MountVolume oe timeout2 m2 a2 (snd (MountVolume oe timeout m a w))) =
           (if vtm_PluginIsAttachable m
            then Some (OperationAlreadyExistsError (vtm_VolumeName m) '''')
            else acceptOrReject (vtm_VolumeName m2) (GetUniquePodName oe (vtm_Pod m2)) w)))"
proof (intro conjI impI)
  show "runCalls (trace (snd (MountVolume oe timeout m a w))) =
     runCalls (trace w) @
     submission oe (GenerateMountVolumeFunc timeout m a) (vtm_VolumeName m)
       (if vtm_PluginIsAttachable m then '''' else GetUniquePodName oe (vtm_Pod m))"
    by (simp add: runCalls_MountVolume mountPodKey_def EmptyUniquePodName_def)
next
  assume h: "vtm_VolumeName m2 = vtm_VolumeName m \<and>
    vtm_PluginIsAttachable m2 = vtm_PluginIsAttachable m \<and>
    GetUniquePodName oe (vtm_Pod m) \<noteq> GetUniquePodName oe (vtm_Pod m2) \<and>
    GetUniquePodName oe (vtm_Pod m) \<noteq> '''' \<and> GetUniquePodName oe (vtm_Pod m2) \<noteq> ''''"
  then show "conflictsWith (vtm_VolumeName m2) (mountPodKey oe m2)
         (newOperation (vtm_VolumeName m) (mountPodKey oe m)) \<longleftrightarrow> vtm_PluginIsAttachable m"
    by (auto simp: conflictsWith_newOperation mountPodKey_def EmptyUniquePodName_def)
  assume g: "vtm_VolumeName m \<noteq> '''' \<and>
       snd (operationGenerator oe (GenerateMountVolumeFunc timeout2 m2 a2)) = None \<and>
       fst (MountVolume oe timeout m a w) = None"
  let ?c = "GenerateMountVolumeFunc timeout m a"
  let ?v = "vtm_VolumeName m"
  from g obtain f where gen: "operationGenerator oe ?c = (f, None)"
    by (cases "operationGenerator oe ?c")
      (auto simp: MountVolume_template verbTemplate_def split: option.splits)
  let ?w1 = "emit (Generate ?c) w"
  have m1: "MountVolume oe timeout m a w = Run ?v (mountPodKey oe m) f ?w1"
    by (simp add: MountVolume_template verbTemplate_def gen)
  with g have acc: "fst (Run ?v (mountPodKey oe m) f ?w1) = None" by simp
  from g have ne: "?v \<noteq> EmptyUniqueVolumeName" by (simp add: EmptyUniqueVolumeName_def)
  have second: "fst (MountVolume oe timeout2 m2 a2 w') =
      acceptOrReject ?v (mountPodKey oe m2) w'" for w'
    using g h
    by (cases "operationGenerator oe (GenerateMountVolumeFunc timeout2 m2 a2)")
      (simp add: MountVolume_template fst_verbTemplate)
  have "fst (MountVolume oe timeout2 m2 a2 (snd (MountVolume oe timeout m a w))) =
      acceptOrReject ?v (mountPodKey oe m2) (snd (Run ?v (mountPodKey oe m) f ?w1))"
    by (simp only: second m1)
  also have "\<dots> =
      (if mountPodKey oe m = EmptyUniquePodName \<or> mountPodKey oe m2 = EmptyUniquePodName \<or>
          mountPodKey oe m = mountPodKey oe m2
       then Some (OperationAlreadyExistsError ?v (mountPodKey oe m2))
       else acceptOrReject ?v (mountPodKey oe m2) ?w1)"
    by (rule acceptOrReject_after_accept[OF acc ne])
  also have "\<dots> =
      (if vtm_PluginIsAttachable m
       then Some (OperationAlreadyExistsError (vtm_VolumeName m) '''')
       else acceptOrReject (vtm_VolumeName m2) (GetUniquePodName oe (vtm_Pod m2)) w)"
    using h by (auto simp: mountPodKey_def EmptyUniquePodName_def acceptOrReject_emit)
  finally show "fst (MountVolume oe timeout2 m2 a2 (snd (MountVolume oe timeout m a w))) =
           (if vtm_PluginIsAttachable m
            then Some (OperationAlreadyExistsError (vtm_VolumeName m) '''')
            else acceptOrReject (vtm_VolumeName m2) (GetUniquePodName oe (vtm_Pod m2)) w)" .
qed

lemmas example_eval =
  exampleExecutor_def failingExecutor_def okGenerator_def failingGenerator_def podNames_def
  twoPlugins_def pluginA_def pluginB_def volumeAt_def mountOf_def attachOf_def unmountOf_def
  world0_def attachRunning_def

lemmas verb_eval =
  AttachVolume_def DetachVolume_def MountVolume_def UnmountVolume_def UnmountDevice_def
  VerifyControllerAttachedVolume_def VerifyVolumesAreAttachedPerNode_def generate_def
  verbTemplate_def submission_def mountPodKey_def acceptOrReject_def runCalls_def
  generateCalls_def errorLines_def

lemma runningUnder_Run_sentinel:
  "runningUnder '''' '''' (snd (Run '''' '''' task w)) = Suc (runningUnder '''' '''' w)"
  by (simp add: runningUnder_def operations_Run Let_def EmptyUniqueVolumeName_def newOperation_def
      hasKey_def)

lemma runCalls_of_per_node_verification:
  "runCalls (trace (snd (VerifyVolumesAreAttachedPerNode oe attachedVolumes nodeName
       attacherUpdater w))) =
     runCalls (trace w) @
     submission oe (GenerateVolumesAreAttachedFunc attachedVolumes nodeName attacherUpdater)
       '''' '''' \<and>
   fst (VerifyVolumesAreAttachedPerNode oe attachedVolumes nodeName attacherUpdater w) =
     snd (operationGenerator oe
            (GenerateVolumesAreAttachedFunc attachedVolumes nodeName attacherUpdater)) \<and>
   fst (Run '''' '''' task w) = None \<and>
   runningUnder '''' '''' (snd (Run '''' '''' task w)) = Suc (runningUnder '''' '''' w)"
proof (intro conjI)
  show "fst (VerifyVolumesAreAttachedPerNode oe attachedVolumes nodeName attacherUpdater w) =
     snd (operationGenerator oe
            (GenerateVolumesAreAttachedFunc attachedVolumes nodeName attacherUpdater))"
    by (simp add: VerifyVolumesAreAttachedPerNode_def generate_def fst_Run acceptOrReject_def
        EmptyUniqueVolumeName_def split: prod.splits option.splits)
  show "fst (Run '''' '''' task w) = None"
    by (simp add: fst_Run acceptOrReject_def EmptyUniqueVolumeName_def)
qed (simp_all only: runCalls_VerifyVolumesAreAttachedPerNode runningUnder_Run_sentinel)

text \<open>An attach whose generation fails returns that error and leaves only the generator call
  in the trace; with an attach of \<open>vol1\<close> running, a second attach of \<open>vol1\<close> returns the
  registry's rejection and an attach of \<open>vol2\<close> returns nil.\<close>
theorem verbs_return_generation_error_or_registry_answer_witness:
  "snd (operationGenerator failingExecutor (GenerateAttachVolumeFunc (attachOf ''vol1'') None))
     \<noteq> None \<and>
   AttachVolume failingExecutor (attachOf ''vol1'') None world0 =
     (Some (Err ''cannot build task''),
      emit (Generate (GenerateAttachVolumeFunc (attachOf ''vol1'') None)) world0) \<and>
   fst (AttachVolume exampleExecutor (attachOf ''vol1'') None attachRunning) =
     Some (OperationAlreadyExistsError ''vol1'' '''') \<and>
   fst (AttachVolume exampleExecutor (attachOf ''vol2'') None attachRunning) = None"
proof -
  let ?c = "GenerateAttachVolumeFunc (attachOf ''vol1'') None"
  have f: "snd (operationGenerator failingExecutor ?c) \<noteq> None"
    "operationGenerator failingExecutor ?c = (None, Some (Err ''cannot build task''))"
    by (simp_all add: example_eval)
  have g: "operationGenerator exampleExecutor (GenerateAttachVolumeFunc v None) = (Some 7, None)"
    for v by (simp add: example_eval)
  have n: "vta_VolumeName (attachOf v) = v" for v by (simp add: attachOf_def)
  have r: "acceptOrReject ''vol1'' '''' attachRunning = Some (OperationAlreadyExistsError ''vol1'' '''')"
    "acceptOrReject ''vol2'' '''' attachRunning = None"
    by (simp_all add: verb_eval example_eval registry_eval)
  note t1 = verbs_return_generation_error_or_registry_answer[where oe = failingExecutor
      and volumeToAttach = "attachOf ''vol1''" and attacherUpdater = None and w = world0
      and call = ?c and volumeKey = "''vol1''" and podKey = "''''"]
  note t2 = verbs_return_generation_error_or_registry_answer[where oe = exampleExecutor
      and volumeToAttach = "attachOf ''vol1''" and attacherUpdater = None and w = attachRunning
      and call = ?c and volumeKey = "''vol1''" and podKey = "''''"]
  note t3 = verbs_return_generation_error_or_registry_answer[where oe = exampleExecutor
      and volumeToAttach = "attachOf ''vol2''" and attacherUpdater = None and w = attachRunning
      and call = "GenerateAttachVolumeFunc (attachOf ''vol2'') None"
      and volumeKey = "''vol2''" and podKey = "''''"]
  have 1: "AttachVolume failingExecutor (attachOf ''vol1'') None world0 =
     (Some (Err ''cannot build task''), emit (Generate ?c) world0)"
    using t1 f n by (simp add: prod_eq_iff)
  have 2: "fst (AttachVolume exampleExecutor (attachOf ''vol1'') None attachRunning) =
     Some (OperationAlreadyExistsError ''vol1'' '''')"
    using t2 g n r by simp
  have 3: "fst (AttachVolume exampleExecutor (attachOf ''vol2'') None attachRunning) = None"
    using t3 g n r by simp
  from f 1 2 3 show ?thesis by simp
qed


subsection \<open>Bulk verification\<close>

lemma generateCalls_emit_Generate:
  "generateCalls (trace (emit (Generate c) w)) = generateCalls (trace w) @ [c]"
  by (simp add: trace_emit generateCalls_append) (simp add: generateCalls_def)

lemma generateCalls_emit_Errorf:
  "generateCalls (trace (emit (Errorf l) w)) = generateCalls (trace w)"
  by (simp add: trace_emit generateCalls_append) (simp add: generateCalls_def)

lemma errorLines_emit_Generate:
  "errorLines (trace (emit (Generate c) w)) = errorLines (trace w)"
  by (simp add: trace_emit errorLines_append) (simp add: errorLines_def)

lemma errorLines_emit_Errorf:
  "errorLines (trace (emit (Errorf l) w)) = errorLines (trace w) @ [l]"
  by (simp add: trace_emit errorLines_append) (simp add: errorLines_def)

lemma generateCalls_PerNode:
  "generateCalls (trace (snd (VerifyVolumesAreAttachedPerNode oe vs n a w))) =
     generateCalls (trace w) @ [GenerateVolumesAreAttachedFunc vs n a]"
  by (simp add: VerifyVolumesAreAttachedPerNode_def generate_def generateCalls_Run
      generateCalls_emit_Generate split: prod.splits option.splits)


lemma fst_PerNode:
  "fst (VerifyVolumesAreAttachedPerNode oe vs n a w) =
     snd (operationGenerator oe (GenerateVolumesAreAttachedFunc vs n a))"
  by (simp add: VerifyVolumesAreAttachedPerNode_def generate_def fst_Run acceptOrReject_def
      EmptyUniqueVolumeName_def split: prod.splits option.splits)

text \<open>One step of the inner loop, by the kind of the volume.\<close>

lemma verifyNodeVolumes_skip:
  "resolvePlugin oe v = None \<Longrightarrow>
   verifyNodeVolumes oe a node all (v # rest) (maps, w) =
     verifyNodeVolumes oe a node all rest (maps, emit (Errorf (hd (skipLine oe v))) w)"
  by (auto simp: resolvePlugin_def skipLine_def split: option.splits prod.splits)



lemma verifyNodeVolumes_bulk:
  "resolvePlugin oe v = Some (spec, pl) \<Longrightarrow> SupportsBulkVolumeVerification pl \<Longrightarrow>
   verifyNodeVolumes oe a node all (v # rest) (maps, w) =
     verifyNodeVolumes oe a node all rest
       (accumulate node (GetPluginName pl) spec (av_VolumeName v) maps, w)"
  by (auto simp: resolvePlugin_def split: option.splits prod.splits)

lemma verifyNodeVolumes_fallback:
  "resolvePlugin oe v = Some (spec, pl) \<Longrightarrow> \<not> SupportsBulkVolumeVerification pl \<Longrightarrow>
   verifyNodeVolumes oe a node all (v # rest) (maps, w) =
     (case VerifyVolumesAreAttachedPerNode oe all node a w of
        (Some nodeError, w1) \<Rightarrow> (maps, emit (Errorf (PerNodeVerifyError node nodeError)) w1)
      | (None, w1) \<Rightarrow> (maps, w1))"
  by (auto simp: resolvePlugin_def split: option.splits prod.splits)

declare verifyNodeVolumes.simps(2) [simp del]

lemma accumulateVolume_skip: "resolvePlugin oe v = None \<Longrightarrow> accumulateVolume oe node maps v = maps"
  by (simp add: accumulateVolume_def)

lemma accumulateVolume_bulk:
  "resolvePlugin oe v = Some (spec, pl) \<Longrightarrow> SupportsBulkVolumeVerification pl \<Longrightarrow>
   accumulateVolume oe node maps v =
     accumulate node (GetPluginName pl) spec (av_VolumeName v) maps"
  by (simp add: accumulateVolume_def)

lemma verifyNodeVolumes_cases:
  obtains (skip) "resolvePlugin oe v = None" "\<not> fallsBack oe v"
  | (bulk) spec pl where "resolvePlugin oe v = Some (spec, pl)"
      "SupportsBulkVolumeVerification pl" "\<not> fallsBack oe v"
  | (fallback) spec pl where "resolvePlugin oe v = Some (spec, pl)"
      "\<not> SupportsBulkVolumeVerification pl" "fallsBack oe v"
  by (cases "resolvePlugin oe v") (auto simp: fallsBack_def)

lemma fst_verifyNodeVolumes:
  "fst (verifyNodeVolumes oe a node all rest (maps, w)) =
     foldl (accumulateVolume oe node) maps (examined oe rest)"
proof (induction rest arbitrary: maps w)
  case Nil
  show ?case by (simp add: examined_def)
next
  case (Cons v rest)
  show ?case
  proof (cases rule: verifyNodeVolumes_cases[of oe v])
    case skip
    then show ?thesis
      using Cons.IH by (simp add: verifyNodeVolumes_skip examined_def accumulateVolume_skip)
  next
    case (bulk spec pl)
    then show ?thesis
      using Cons.IH by (simp add: verifyNodeVolumes_bulk examined_def accumulateVolume_bulk)
  next
    case (fallback spec pl)
    then show ?thesis
      by (simp add: verifyNodeVolumes_fallback examined_def split: prod.splits option.splits)
  qed
qed

lemma generateCalls_verifyNodeVolumes:
  "generateCalls (trace (snd (verifyNodeVolumes oe a node all rest (maps, w)))) =
     generateCalls (trace w) @
     (if list_ex (fallsBack oe) rest then [GenerateVolumesAreAttachedFunc all node a] else [])"
proof (induction rest arbitrary: maps w)
  case Nil
  show ?case by simp
next
  case (Cons v rest)
  show ?case
  proof (cases rule: verifyNodeVolumes_cases[of oe v])
    case skip
    then show ?thesis
      using Cons.IH by (simp add: verifyNodeVolumes_skip generateCalls_emit_Errorf)
  next
    case (bulk spec pl)
    then show ?thesis
      using Cons.IH by (simp add: verifyNodeVolumes_bulk)
  next
    case (fallback spec pl)
    have "generateCalls (trace (snd (case VerifyVolumesAreAttachedPerNode oe all node a w of
        (Some nodeError, w1) \<Rightarrow> (maps, emit (Errorf (PerNodeVerifyError node nodeError)) w1)
      | (None, w1) \<Rightarrow> (maps, w1)))) =
      generateCalls (trace (snd (VerifyVolumesAreAttachedPerNode oe all node a w)))"
      by (simp add: generateCalls_emit_Errorf split: prod.splits option.splits)
    with fallback show ?thesis
      by (simp add: verifyNodeVolumes_fallback generateCalls_PerNode)
  qed
qed

lemma runCalls_verifyNodeVolumes:
  "runCalls (trace (snd (verifyNodeVolumes oe a node all rest (maps, w)))) =
     runCalls (trace w) @
     (if list_ex (fallsBack oe) rest
      then submission oe (GenerateVolumesAreAttachedFunc all node a) '''' '''' else [])"
proof (induction rest arbitrary: maps w)
  case Nil
  show ?case by simp
next
  case (Cons v rest)
  show ?case
  proof (cases rule: verifyNodeVolumes_cases[of oe v])
    case skip
    then show ?thesis
      using Cons.IH by (simp add: verifyNodeVolumes_skip runCalls_emit_Errorf)
  next
    case (bulk spec pl)
    then show ?thesis
      using Cons.IH by (simp add: verifyNodeVolumes_bulk)
  next
    case (fallback spec pl)
    have "runCalls (trace (snd (case VerifyVolumesAreAttachedPerNode oe all node a w of
        (Some nodeError, w1) \<Rightarrow> (maps, emit (Errorf (PerNodeVerifyError node nodeError)) w1)
      | (None, w1) \<Rightarrow> (maps, w1)))) =
      runCalls (trace (snd (VerifyVolumesAreAttachedPerNode oe all node a w)))"
      by (simp add: runCalls_emit_Errorf split: prod.splits option.splits)
    with fallback show ?thesis
      by (simp add: verifyNodeVolumes_fallback runCalls_VerifyVolumesAreAttachedPerNode)
  qed
qed



lemma fst_partitionByPlugin:
  "fst (partitionByPlugin oe a nodes s) =
     foldl (\<lambda>m entry. foldl (accumulateVolume oe (fst entry)) m (examined oe (snd entry)))
       (fst s) nodes"
proof (induction nodes arbitrary: s)
  case Nil
  show ?case by simp
next
  case (Cons entry nodes)
  obtain node vols where e: "entry = (node, vols)" by (cases entry)
  obtain maps w where s: "s = (maps, w)" by (cases s)
  show ?case
    by (simp add: e s Cons.IH fst_verifyNodeVolumes)
qed

lemma generateCalls_partitionByPlugin:
  "generateCalls (trace (snd (partitionByPlugin oe a nodes s))) =
     generateCalls (trace (snd s)) @ concat (map (perNodeCall oe a) nodes)"
proof (induction nodes arbitrary: s)
  case Nil
  show ?case by simp
next
  case (Cons entry nodes)
  obtain node vols where e: "entry = (node, vols)" by (cases entry)
  obtain maps w where s: "s = (maps, w)" by (cases s)
  show ?case
    by (simp add: e s Cons.IH generateCalls_verifyNodeVolumes perNodeCall_def)
qed

lemma runCalls_partitionByPlugin:
  "runCalls (trace (snd (partitionByPlugin oe a nodes s))) =
     runCalls (trace (snd s)) @ concat (map (perNodeSubmission oe a) nodes)"
proof (induction nodes arbitrary: s)
  case Nil
  show ?case by simp
next
  case (Cons entry nodes)
  obtain node vols where e: "entry = (node, vols)" by (cases entry)
  obtain maps w where s: "s = (maps, w)" by (cases s)
  show ?case
    by (simp add: e s Cons.IH runCalls_verifyNodeVolumes perNodeSubmission_def)
qed

lemma submitBulkVerify_step:
  "submitBulkVerify oe a sm (entry # others) w =
     submitBulkVerify oe a sm others
       (let c = bulkGenerateCall a sm entry;
            w1 = emit (Generate c) w;
            w2 = (case snd (operationGenerator oe c) of
                    Some e \<Rightarrow> emit (Errorf (BulkGenerateError (fst entry) e)) w1
                  | None \<Rightarrow> w1);
            r = Run (fst entry) '''' (fst (operationGenerator oe c)) w2
        in case fst r of
             Some e \<Rightarrow> emit (Errorf (BulkRunError (fst entry) e)) (snd r)
           | None \<Rightarrow> snd r)"
  by (cases entry)
    (simp add: generate_def bulkGenerateCall_def Let_def split: prod.splits option.splits)

declare submitBulkVerify.simps(2) [simp del]

lemma runCalls_submitBulkVerify:
  "runCalls (trace (submitBulkVerify oe a sm entries w)) =
     runCalls (trace w) @ map (bulkSubmission oe a sm) entries"
proof (induction entries arbitrary: w)
  case Nil
  show ?case by simp
next
  case (Cons entry entries)
  show ?case
    by (simp add: submitBulkVerify_step Cons.IH Let_def runCalls_emit_Errorf runCalls_Run
        runCalls_emit_Generate bulkSubmission_def split: option.splits)
qed

lemma generateCalls_submitBulkVerify:
  "generateCalls (trace (submitBulkVerify oe a sm entries w)) =
     generateCalls (trace w) @ map (bulkGenerateCall a sm) entries"
proof (induction entries arbitrary: w)
  case Nil
  show ?case by simp
next
  case (Cons entry entries)
  show ?case
    by (simp add: submitBulkVerify_step Cons.IH Let_def generateCalls_emit_Errorf
        generateCalls_Run generateCalls_emit_Generate split: option.splits)
qed

lemma errorLines_submitBulkVerify_mono:
  "set (errorLines (trace w)) \<subseteq> set (errorLines (trace (submitBulkVerify oe a sm entries w)))"
proof (induction entries arbitrary: w)
  case Nil
  show ?case by simp
next
  case (Cons entry entries)
  let ?w' = "(let c = bulkGenerateCall a sm entry;
            w1 = emit (Generate c) w;
            w2 = (case snd (operationGenerator oe c) of
                    Some e \<Rightarrow> emit (Errorf (BulkGenerateError (fst entry) e)) w1
                  | None \<Rightarrow> w1);
            r = Run (fst entry) '''' (fst (operationGenerator oe c)) w2
        in case fst r of
             Some e \<Rightarrow> emit (Errorf (BulkRunError (fst entry) e)) (snd r)
           | None \<Rightarrow> snd r)"
  have "set (errorLines (trace w)) \<subseteq> set (errorLines (trace ?w'))"
    by (auto simp: Let_def errorLines_emit_Errorf errorLines_Run errorLines_emit_Generate
        split: option.splits)
  also have "\<dots> \<subseteq> set (errorLines (trace (submitBulkVerify oe a sm entries ?w')))"
    by (rule Cons.IH)
  finally show ?case by (simp only: submitBulkVerify_step)
qed

lemma errorLines_submitBulkVerify_generate:
  assumes "entry \<in> set entries"
    and "snd (operationGenerator oe (bulkGenerateCall a sm entry)) = Some err"
  shows "BulkGenerateError (fst entry) err \<in>
    set (errorLines (trace (submitBulkVerify oe a sm entries w)))"
  using assms
proof (induction entries arbitrary: w)
  case Nil
  then show ?case by simp
next
  case (Cons x entries)
  let ?w' = "(let c = bulkGenerateCall a sm x;
            w1 = emit (Generate c) w;
            w2 = (case snd (operationGenerator oe c) of
                    Some e \<Rightarrow> emit (Errorf (BulkGenerateError (fst x) e)) w1
                  | None \<Rightarrow> w1);
            r = Run (fst x) '''' (fst (operationGenerator oe c)) w2
        in case fst r of
             Some e \<Rightarrow> emit (Errorf (BulkRunError (fst x) e)) (snd r)
           | None \<Rightarrow> snd r)"
  show ?case
  proof (cases "entry = x")
    case True
    with Cons.prems have "BulkGenerateError (fst entry) err \<in> set (errorLines (trace ?w'))"
      by (auto simp: Let_def errorLines_emit_Errorf errorLines_Run errorLines_emit_Generate
          split: option.splits)
    with errorLines_submitBulkVerify_mono[of ?w' oe a sm entries]
    show ?thesis by (auto simp only: submitBulkVerify_step)
  next
    case False
    with Cons.prems have "entry \<in> set entries" by simp
    from Cons.IH[OF this Cons.prems(2)] show ?thesis by (simp only: submitBulkVerify_step)
  qed
qed

text \<open>Keys of the maps.\<close>

lemma map_fst_assign:
  "map fst (assign k v m) = (if k \<in> set (map fst m) then map fst m else map fst m @ [k])"
  by (induction m) auto

lemma lookup_assign: "lookup (assign k v m) k' = (if k' = k then v else lookup m k')"
  by (induction m) (auto simp: lookup_def)

lemma assign_assign: "assign k v (assign k v' m) = assign k v m"
  by (induction m) auto

lemma keys_accumulate:
  "map fst (fst (accumulate node p spec name maps)) =
     (if p \<in> set (map fst (fst maps)) then map fst (fst maps) else map fst (fst maps) @ [p])"
  by (cases maps) (simp add: accumulate_def Let_def map_fst_assign)

lemma keys_accumulate_set:
  "fst ` set (fst (accumulate node p spec name maps)) = insert p (fst ` set (fst maps))"
  using arg_cong[OF keys_accumulate[of node p spec name maps], of set]
  by (auto split: if_splits)

lemma distinct_accumulate:
  "distinct (map fst (fst maps)) \<Longrightarrow> distinct (map fst (fst (accumulate node p spec name maps)))"
  by (simp add: keys_accumulate)

lemma keys_accumulateVolume:
  "set (map fst (fst (accumulateVolume oe node maps v))) =
     set (map fst (fst maps)) \<union> set (pluginNameOf oe v) \<and>
   (distinct (map fst (fst maps)) \<longrightarrow> distinct (map fst (fst (accumulateVolume oe node maps v))))"
  by (auto simp: accumulateVolume_def pluginNameOf_def keys_accumulate_set distinct_accumulate
      split: option.splits)

lemma keys_foldl_accumulateVolume:
  "set (map fst (fst (foldl (accumulateVolume oe node) maps vs))) =
     set (map fst (fst maps)) \<union> set (concat (map (pluginNameOf oe) vs)) \<and>
   (distinct (map fst (fst maps)) \<longrightarrow>
      distinct (map fst (fst (foldl (accumulateVolume oe node) maps vs))))"
proof (induction vs arbitrary: maps)
  case Nil
  show ?case by simp
next
  case (Cons v vs)
  from Cons.IH[of "accumulateVolume oe node maps v"] keys_accumulateVolume[of oe node maps v]
  show ?case by auto
qed

lemma accumulatedPlugins_Cons:
  "accumulatedPlugins oe (entry # nodes) =
     concat (map (pluginNameOf oe) (examined oe (snd entry))) @ accumulatedPlugins oe nodes"
  by (simp add: accumulatedPlugins_def)

lemma keys_partition_fold:
  "set (map fst (fst (foldl (\<lambda>m entry. foldl (accumulateVolume oe (fst entry)) m
        (examined oe (snd entry))) maps nodes))) =
     set (map fst (fst maps)) \<union> set (accumulatedPlugins oe nodes) \<and>
   (distinct (map fst (fst maps)) \<longrightarrow>
      distinct (map fst (fst (foldl (\<lambda>m entry. foldl (accumulateVolume oe (fst entry)) m
        (examined oe (snd entry))) maps nodes))))"
proof (induction nodes arbitrary: maps)
  case Nil
  show ?case by (simp add: accumulatedPlugins_def)
next
  case (Cons entry nodes)
  from Cons.IH[of "foldl (accumulateVolume oe (fst entry)) maps (examined oe (snd entry))"]
    keys_foldl_accumulateVolume[of oe "fst entry" maps "examined oe (snd entry)"]
  show ?case by (auto simp: accumulatedPlugins_Cons)
qed

lemma keys_partitioned:
  "set (map fst (fst (fst (partitioned oe av a w)))) = set (accumulatedPlugins oe av)"
  "distinct (map fst (fst (fst (partitioned oe av a w))))"
  using keys_partition_fold[of oe "([], [])" av]
  by (simp_all add: partitioned_def fst_partitionByPlugin)

lemma length_filter_distinct_keys:
  "distinct (map fst xs) \<Longrightarrow>
   length (filter (\<lambda>e. fst e = p) xs) = (if p \<in> set (map fst xs) then 1 else 0)"
  by (induction xs) (auto simp: image_iff)

lemma length_filter_mset:
  "mset xs = mset ys \<Longrightarrow> length (filter P xs) = length (filter P ys)"
proof -
  assume "mset xs = mset ys"
  then have "mset (filter P xs) = mset (filter P ys)" by (simp add: mset_filter)
  then show ?thesis by (metis size_mset)
qed

lemma VerifyVolumesAreAttached_eq:
  "VerifyVolumesAreAttached oe rangeOrder av a w =
     submitBulkVerify oe a (snd (fst (partitioned oe av a w)))
       (rangeOrder (fst (fst (partitioned oe av a w)))) (snd (partitioned oe av a w))"
  by (simp add: VerifyVolumesAreAttached_def partitioned_def split: prod.splits)


lemma runCalls_VerifyVolumesAreAttached:
  "runCalls (trace (VerifyVolumesAreAttached oe rangeOrder av a w)) =
     runCalls (trace (snd (partitioned oe av a w))) @ bulkRunCalls oe rangeOrder av a w"
  by (simp add: VerifyVolumesAreAttached_eq runCalls_submitBulkVerify bulkRunCalls_def)

lemma fst_bulkSubmission: "fst (bulkSubmission oe a sm entry) = fst entry"
  by (simp add: bulkSubmission_def)

lemma filter_bulkRunCalls:
  "filter (\<lambda>c. fst c = p) (bulkRunCalls oe rangeOrder av a w) =
     map (bulkSubmission oe a (snd (fst (partitioned oe av a w))))
       (filter (\<lambda>e. fst e = p) (rangeOrder (fst (fst (partitioned oe av a w)))))"
  by (simp add: bulkRunCalls_def filter_map comp_def fst_bulkSubmission)

lemma filter_distinct_keys:
  "distinct (map fst xs) \<Longrightarrow> e \<in> set xs \<Longrightarrow> filter (\<lambda>x. fst x = fst e) xs = [e]"
proof (induction xs)
  case Nil
  then show ?case by simp
next
  case (Cons x xs)
  show ?case
  proof (cases "e = x")
    case True
    with Cons.prems have "filter (\<lambda>x. fst x = fst e) xs = []"
      by (auto simp: filter_empty_conv image_iff)
    with True show ?thesis by simp
  next
    case False
    with Cons.prems have "e \<in> set xs" "fst x \<noteq> fst e" by (auto simp: image_iff)
    with Cons show ?thesis by simp
  qed
qed

lemma enumerated_keys:
  assumes "mset ys = mset b"
  shows "distinct (map fst ys) = distinct (map fst b)"
    and "set ys = set b"
proof -
  from assms have "mset (map fst ys) = mset (map fst b)" by (metis mset_map)
  then show "distinct (map fst ys) = distinct (map fst b)"
    by (rule mset_eq_imp_distinct_iff)
  from assms show "set ys = set b" by (rule mset_eq_setD)
qed

lemma runCalls_of_bulk_submissions:
  assumes "\<forall>b. mset (rangeOrder b) = mset b"
  shows "runCalls (trace (VerifyVolumesAreAttached oe rangeOrder attachedVolumes updater w)) =
      runCalls (trace (snd (partitioned oe attachedVolumes updater w))) @
      bulkRunCalls oe rangeOrder attachedVolumes updater w \<and>
    length (submissionsUnder pluginName (bulkRunCalls oe rangeOrder attachedVolumes updater w)) =
      (if pluginName \<in> set (accumulatedPlugins oe attachedVolumes) then 1 else 0) \<and>
    map (\<lambda>c. fst (snd c)) (bulkRunCalls oe rangeOrder attachedVolumes updater w) =
      replicate (length (bulkRunCalls oe rangeOrder attachedVolumes updater w)) ''''"
proof (intro conjI)
  let ?bulk = "fst (fst (partitioned oe attachedVolumes updater w))"
  from assms have perm: "mset (rangeOrder ?bulk) = mset ?bulk" by simp
  have "length (filter (\<lambda>e. fst e = pluginName) (rangeOrder ?bulk)) =
      length (filter (\<lambda>e. fst e = pluginName) ?bulk)"
    using perm by (rule length_filter_mset)
  also have "\<dots> = (if pluginName \<in> set (map fst ?bulk) then 1 else 0)"
    using keys_partitioned(2) by (rule length_filter_distinct_keys)
  also have "\<dots> = (if pluginName \<in> set (accumulatedPlugins oe attachedVolumes) then 1 else 0)"
    by (simp only: keys_partitioned(1))
  finally show "length (submissionsUnder pluginName
        (bulkRunCalls oe rangeOrder attachedVolumes updater w)) =
      (if pluginName \<in> set (accumulatedPlugins oe attachedVolumes) then 1 else 0)"
    by (simp add: submissionsUnder_def filter_bulkRunCalls)
  show "map (\<lambda>c. fst (snd c)) (bulkRunCalls oe rangeOrder attachedVolumes updater w) =
      replicate (length (bulkRunCalls oe rangeOrder attachedVolumes updater w)) ''''"
    by (simp add: bulkRunCalls_def bulkSubmission_def comp_def map_replicate_const)
qed (rule runCalls_VerifyVolumesAreAttached)

lemma runCalls_of_failed_bulk_generation:
  assumes "\<forall>b. mset (rangeOrder b) = mset b"
    and "entry \<in> set (fst (fst (partitioned oe attachedVolumes updater w)))"
    and "operationGenerator oe
           (bulkGenerateCall updater (snd (fst (partitioned oe attachedVolumes updater w))) entry) =
         (task, Some err)"
  shows "runCalls (trace (VerifyVolumesAreAttached oe rangeOrder attachedVolumes updater w)) =
      runCalls (trace (snd (partitioned oe attachedVolumes updater w))) @
      bulkRunCalls oe rangeOrder attachedVolumes updater w \<and>
    submissionsUnder (fst entry) (bulkRunCalls oe rangeOrder attachedVolumes updater w) =
      [(fst entry, '''', task)] \<and>
    BulkGenerateError (fst entry) err \<in>
      set (errorLines (trace (VerifyVolumesAreAttached oe rangeOrder attachedVolumes updater w)))"
proof (intro conjI)
  let ?p = "partitioned oe attachedVolumes updater w"
  let ?bulk = "fst (fst ?p)"
  from assms(1) have perm: "mset (rangeOrder ?bulk) = mset ?bulk" by simp
  have d: "distinct (map fst (rangeOrder ?bulk))"
    using enumerated_keys(1)[OF perm] keys_partitioned(2) by simp
  have m: "entry \<in> set (rangeOrder ?bulk)"
    using enumerated_keys(2)[OF perm] assms(2) by simp
  have "filter (\<lambda>e. fst e = fst entry) (rangeOrder ?bulk) = [entry]"
    using d m by (rule filter_distinct_keys)
  then show "submissionsUnder (fst entry) (bulkRunCalls oe rangeOrder attachedVolumes updater w) =
      [(fst entry, '''', task)]"
    using assms(3) by (simp add: submissionsUnder_def filter_bulkRunCalls bulkSubmission_def)
  from assms(3)
  have "snd (operationGenerator oe (bulkGenerateCall updater (snd (fst ?p)) entry)) = Some err"
    by simp
  with m show "BulkGenerateError (fst entry) err \<in>
      set (errorLines (trace (VerifyVolumesAreAttached oe rangeOrder attachedVolumes updater w)))"
    unfolding VerifyVolumesAreAttached_eq by (rule errorLines_submitBulkVerify_generate)
qed (rule runCalls_VerifyVolumesAreAttached)

lemma generateCalls_VerifyVolumesAreAttached:
  "generateCalls (trace (VerifyVolumesAreAttached oe rangeOrder av a w)) =
     generateCalls (trace w) @ concat (map (perNodeCall oe a) av) @
     map (bulkGenerateCall a (snd (fst (partitioned oe av a w))))
       (rangeOrder (fst (fst (partitioned oe av a w))))"
  by (simp add: VerifyVolumesAreAttached_eq generateCalls_submitBulkVerify)
    (simp add: partitioned_def generateCalls_partitionByPlugin)



lemma allOfPlugin_Cons:
  "allOfPlugin oe pl (v # vs) \<longleftrightarrow>
     (\<exists>spec. av_VolumeSpec v = Some spec \<and> FindPluginBySpec oe spec = (Some pl, None)) \<and>
     allOfPlugin oe pl vs"
  by (auto simp: allOfPlugin_def split: option.splits)

lemma allOfPlugin_Nil: "allOfPlugin oe pl []"
  by (simp add: allOfPlugin_def)

lemma allOfPlugin_append:
  "allOfPlugin oe pl (xs @ ys) \<longleftrightarrow> allOfPlugin oe pl xs \<and> allOfPlugin oe pl ys"
  by (simp add: allOfPlugin_def)

lemma allOfPlugin_resolve:
  "allOfPlugin oe pl vs \<Longrightarrow> v \<in> set vs \<Longrightarrow>
   \<exists>spec. av_VolumeSpec v = Some spec \<and> resolvePlugin oe v = Some (spec, pl)"
  by (auto simp: allOfPlugin_def list_all_iff resolvePlugin_def split: option.splits)

lemma allOfPlugin_bulk_not_fallsBack:
  "allOfPlugin oe pl vs \<Longrightarrow> SupportsBulkVolumeVerification pl \<Longrightarrow> v \<in> set vs \<Longrightarrow>
   \<not> fallsBack oe v"
  by (auto simp: fallsBack_def dest: allOfPlugin_resolve)

lemma allOfPlugin_nonbulk_fallsBack:
  "allOfPlugin oe pl vs \<Longrightarrow> \<not> SupportsBulkVolumeVerification pl \<Longrightarrow> v \<in> set vs \<Longrightarrow>
   fallsBack oe v"
  by (auto simp: fallsBack_def dest: allOfPlugin_resolve)

lemma examined_bulk_then_nonbulk:
  assumes "allOfPlugin oe plA as" "SupportsBulkVolumeVerification plA"
    and "allOfPlugin oe plB bs" "\<not> SupportsBulkVolumeVerification plB"
  shows "examined oe (as @ bs) = as" and "list_ex (fallsBack oe) (as @ bs) \<longleftrightarrow> bs \<noteq> []"
proof -
  have a: "\<forall>v \<in> set as. \<not> fallsBack oe v"
    using allOfPlugin_bulk_not_fallsBack[OF assms(1,2)] by blast
  have b: "\<forall>v \<in> set bs. fallsBack oe v"
    using allOfPlugin_nonbulk_fallsBack[OF assms(3,4)] by blast
  have "takeWhile (\<lambda>v. \<not> fallsBack oe v) bs = []"
    using b by (cases bs) simp_all
  with a show "examined oe (as @ bs) = as"
    by (simp add: examined_def takeWhile_append2)
  from a b show "list_ex (fallsBack oe) (as @ bs) \<longleftrightarrow> bs \<noteq> []"
    by (cases bs) (auto simp: list_ex_iff)
qed

lemma fst_accumulate:
  "fst (accumulate node p spec name maps) =
     assign p (assign node (lookup (lookup (fst maps) p) node @ [spec]) (lookup (fst maps) p))
       (fst maps)"
  by (cases maps) (simp add: accumulate_def Let_def)

lemma specsOf_Cons: "av_VolumeSpec v = Some spec \<Longrightarrow> specsOf (v # vs) = spec # specsOf vs"
  by (simp add: specsOf_def)

lemma foldl_accumulate_one_plugin:
  assumes "allOfPlugin oe pl vs" and "SupportsBulkVolumeVerification pl"
  shows "fst (foldl (accumulateVolume oe node) maps vs) =
     (if vs = [] then fst maps
      else assign (GetPluginName pl)
             (assign node (lookup (lookup (fst maps) (GetPluginName pl)) node @ specsOf vs)
                (lookup (fst maps) (GetPluginName pl)))
             (fst maps))"
  using assms(1)
proof (induction vs arbitrary: maps)
  case Nil
  show ?case by simp
next
  case (Cons v vs)
  from Cons.prems obtain spec where v: "av_VolumeSpec v = Some spec"
    "resolvePlugin oe v = Some (spec, pl)" and rest: "allOfPlugin oe pl vs"
    using allOfPlugin_resolve[of oe pl "v # vs" v] by (auto simp: allOfPlugin_Cons)
  let ?A = "GetPluginName pl"
  let ?maps1 = "accumulate node ?A spec (av_VolumeName v) maps"
  have step: "accumulateVolume oe node maps v = ?maps1"
    using v(2) assms(2) by (rule accumulateVolume_bulk)
  have f1: "fst ?maps1 =
      assign ?A (assign node (lookup (lookup (fst maps) ?A) node @ [spec])
        (lookup (fst maps) ?A)) (fst maps)"
    by (rule fst_accumulate)
  show ?case
  proof (cases "vs = []")
    case True
    then show ?thesis by (simp add: step f1 specsOf_def v(1))
  next
    case False
    from Cons.IH[OF rest, of ?maps1] False
    have "fst (foldl (accumulateVolume oe node) ?maps1 vs) =
        assign ?A (assign node (lookup (lookup (fst ?maps1) ?A) node @ specsOf vs)
          (lookup (fst ?maps1) ?A)) (fst ?maps1)" by simp
    then show ?thesis
      by (simp add: step f1 lookup_assign assign_assign specsOf_Cons[OF v(1)])
  qed
qed

lemma mset_singleton_list: "mset xs = mset [x] \<Longrightarrow> xs = [x]"
  by (cases xs) (auto simp: mset_eq_setD dest: arg_cong[where f = size])


lemma runCalls_partitioned:
  "runCalls (trace (snd (partitioned oe av a w))) =
     runCalls (trace w) @ concat (map (perNodeSubmission oe a) av)"
  by (simp add: partitioned_def runCalls_partitionByPlugin)

lemma fst_partitioned:
  "fst (partitioned oe av a w) =
     foldl (\<lambda>m entry. foldl (accumulateVolume oe (fst entry)) m (examined oe (snd entry)))
       ([], []) av"
  by (simp add: partitioned_def fst_partitionByPlugin)

lemma lookup_Nil: "lookup [] k = []"
  by (simp add: lookup_def)

lemma calls_when_bulk_volumes_come_first:
  assumes "\<forall>b. mset (rangeOrder b) = mset b"
    and "node1 \<noteq> node2"
    and "allOfPlugin oe pluginA (as1 @ as2)" and "SupportsBulkVolumeVerification pluginA"
    and "allOfPlugin oe pluginB (bs1 @ bs2)" and "\<not> SupportsBulkVolumeVerification pluginB"
    and "as1 \<noteq> []" and "as2 \<noteq> []" and "bs1 \<noteq> []" and "bs2 \<noteq> []"
  shows "generateCalls (trace (VerifyVolumesAreAttached oe rangeOrder
             [(node1, as1 @ bs1), (node2, as2 @ bs2)] updater w)) =
      generateCalls (trace w) @
      [GenerateVolumesAreAttachedFunc (as1 @ bs1) node1 updater,
       GenerateVolumesAreAttachedFunc (as2 @ bs2) node2 updater,
       GenerateBulkVolumeVerifyFunc [(node1, specsOf as1), (node2, specsOf as2)]
         (GetPluginName pluginA)
         (lookup (snd (fst (partitioned oe [(node1, as1 @ bs1), (node2, as2 @ bs2)] updater w)))
            (GetPluginName pluginA))
         updater] \<and>
    runCalls (trace (VerifyVolumesAreAttached oe rangeOrder
             [(node1, as1 @ bs1), (node2, as2 @ bs2)] updater w)) =
      runCalls (trace w) @
      submission oe (GenerateVolumesAreAttachedFunc (as1 @ bs1) node1 updater) '''' '''' @
      submission oe (GenerateVolumesAreAttachedFunc (as2 @ bs2) node2 updater) '''' '''' @
      [(GetPluginName pluginA, '''',
        fst (operationGenerator oe
          (GenerateBulkVolumeVerifyFunc [(node1, specsOf as1), (node2, specsOf as2)]
             (GetPluginName pluginA)
             (lookup (snd (fst (partitioned oe [(node1, as1 @ bs1), (node2, as2 @ bs2)]
                updater w))) (GetPluginName pluginA))
             updater)))]"
proof -
  let ?av = "[(node1, as1 @ bs1), (node2, as2 @ bs2)]"
  let ?A = "GetPluginName pluginA"
  let ?p = "partitioned oe ?av updater w"
  from assms(3) have a1: "allOfPlugin oe pluginA as1" and a2: "allOfPlugin oe pluginA as2"
    by (simp_all add: allOfPlugin_append)
  from assms(5) have b1: "allOfPlugin oe pluginB bs1" and b2: "allOfPlugin oe pluginB bs2"
    by (simp_all add: allOfPlugin_append)
  note e1 = examined_bulk_then_nonbulk[OF a1 assms(4) b1 assms(6)]
  note e2 = examined_bulk_then_nonbulk[OF a2 assms(4) b2 assms(6)]
  let ?m1 = "foldl (accumulateVolume oe node1) ([], []) as1"
  have f1: "fst ?m1 = [(?A, [(node1, specsOf as1)])]"
    using assms(7) by (simp add: foldl_accumulate_one_plugin[OF a1 assms(4)] lookup_Nil)
  have "fst (foldl (accumulateVolume oe node2) ?m1 as2) =
      [(?A, [(node1, specsOf as1), (node2, specsOf as2)])]"
    using assms(8) assms(2)
    by (simp add: foldl_accumulate_one_plugin[OF a2 assms(4)] f1 lookup_def)
  then have bulk: "fst (fst ?p) = [(?A, [(node1, specsOf as1), (node2, specsOf as2)])]"
    by (simp add: fst_partitioned e1 e2)
  from assms(1) have "mset (rangeOrder (fst (fst ?p))) = mset (fst (fst ?p))" by simp
  then have order: "rangeOrder (fst (fst ?p)) =
      [(?A, [(node1, specsOf as1), (node2, specsOf as2)])]"
    unfolding bulk by (rule mset_singleton_list)
  have pn: "perNodeCall oe updater (node1, as1 @ bs1) =
        [GenerateVolumesAreAttachedFunc (as1 @ bs1) node1 updater]"
      "perNodeCall oe updater (node2, as2 @ bs2) =
        [GenerateVolumesAreAttachedFunc (as2 @ bs2) node2 updater]"
      "perNodeSubmission oe updater (node1, as1 @ bs1) =
        submission oe (GenerateVolumesAreAttachedFunc (as1 @ bs1) node1 updater) '''' ''''"
      "perNodeSubmission oe updater (node2, as2 @ bs2) =
        submission oe (GenerateVolumesAreAttachedFunc (as2 @ bs2) node2 updater) '''' ''''"
    using assms(9,10) e1(2) e2(2)
    by (simp_all add: perNodeCall_def perNodeSubmission_def del: list_ex_append)
  show ?thesis
    by (simp add: generateCalls_VerifyVolumesAreAttached runCalls_VerifyVolumesAreAttached
        runCalls_partitioned bulkRunCalls_def order pn bulkGenerateCall_def bulkSubmission_def)
qed

lemmas partition_eval =
  fst_partitioned examined_def fallsBack_def resolvePlugin_def
  accumulateVolume_def accumulate_def lookup_def Let_def accumulatedPlugins_def pluginNameOf_def
  perNodeCall_def perNodeSubmission_def bulkRunCalls_def bulkSubmission_def bulkGenerateCall_def
  specsOf_def allOfPlugin_def bulkFirst_def bulkLast_def unresolvedOnly_def
  bulkFailingExecutor_def bulkFailingGenerator_def submissionsUnder_def submission_def

text \<open>
  The claim as stated, for any order of a node's volumes, fails when the B volume comes
  first on each node: the loop leaves each node at its first volume, no bulk task is
  generated or submitted for A, and the only registry calls are the two per-node ones.
\<close>
theorem bulk_batch_misses_volumes_after_fallback_counterexample:
  "allOfPlugin exampleExecutor pluginA
     [volumeAt ''node1'' ''a1'' (Some 1), volumeAt ''node2'' ''a2'' (Some 2)] \<and>
   SupportsBulkVolumeVerification pluginA \<and>
   allOfPlugin exampleExecutor pluginB
     [volumeAt ''node1'' ''b1'' (Some 11), volumeAt ''node2'' ''b2'' (Some 12)] \<and>
   \<not> SupportsBulkVolumeVerification pluginB \<and>
   generateCalls (trace (VerifyVolumesAreAttached exampleExecutor id bulkLast None world0)) =
     [GenerateVolumesAreAttachedFunc
        [volumeAt ''node1'' ''b1'' (Some 11), volumeAt ''node1'' ''a1'' (Some 1)] ''node1'' None,
      GenerateVolumesAreAttachedFunc
        [volumeAt ''node2'' ''b2'' (Some 12), volumeAt ''node2'' ''a2'' (Some 2)] ''node2'' None] \<and>
   runCalls (trace (VerifyVolumesAreAttached exampleExecutor id bulkLast None world0)) =
     [('''', '''', Some 200), ('''', '''', Some 200)]"
proof -
  have bulk: "fst (fst (partitioned exampleExecutor bulkLast None world0)) = []"
    by (simp add: partition_eval example_eval)
  have "allOfPlugin exampleExecutor pluginA
     [volumeAt ''node1'' ''a1'' (Some 1), volumeAt ''node2'' ''a2'' (Some 2)]"
    "allOfPlugin exampleExecutor pluginB
     [volumeAt ''node1'' ''b1'' (Some 11), volumeAt ''node2'' ''b2'' (Some 12)]"
    "SupportsBulkVolumeVerification pluginA" "\<not> SupportsBulkVolumeVerification pluginB"
    by (simp_all add: partition_eval example_eval)
  moreover
  have "generateCalls (trace (VerifyVolumesAreAttached exampleExecutor id bulkLast None world0)) =
     [GenerateVolumesAreAttachedFunc
        [volumeAt ''node1'' ''b1'' (Some 11), volumeAt ''node1'' ''a1'' (Some 1)] ''node1'' None,
      GenerateVolumesAreAttachedFunc
        [volumeAt ''node2'' ''b2'' (Some 12), volumeAt ''node2'' ''a2'' (Some 2)] ''node2'' None]"
    by (simp add: generateCalls_VerifyVolumesAreAttached bulk)
      (simp add: partition_eval example_eval generateCalls_def registry_eval)
  moreover
  have "runCalls (trace (VerifyVolumesAreAttached exampleExecutor id bulkLast None world0)) =
     [('''', '''', Some 200), ('''', '''', Some 200)]"
    by (simp add: runCalls_VerifyVolumesAreAttached runCalls_partitioned bulkRunCalls_def bulk)
      (simp add: partition_eval example_eval runCalls_def registry_eval)
  ultimately show ?thesis by simp
qed



subsection \<open>The world the verbs and the bulk verification leave\<close>

lemma submitAll_Nil: "submitAll oe a sm [] w = w"
  by (simp add: submitAll_def)

lemma submitAll_Cons:
  "submitAll oe a sm (entry # entries) w = submitAll oe a sm entries (submitOne oe a sm entry w)"
  by (simp add: submitAll_def)

lemma submitBulkVerify_submitAll:
  "submitBulkVerify oe a sm entries w = submitAll oe a sm entries w"
proof (induction entries arbitrary: w)
  case Nil
  show ?case by (simp add: submitAll_Nil)
next
  case (Cons entry entries)
  show ?case
    by (simp add: submitBulkVerify_step Cons.IH submitOne_def Let_def submitAll_Cons)
qed

lemma hasKey_newOperation: "hasKey a b (newOperation v p) \<longleftrightarrow> v = a \<and> p = b"
  by (auto simp: hasKey_def newOperation_def)

lemma find_append_miss: "\<not> P x \<Longrightarrow> find P (xs @ [x]) = find P xs"
  by (induction xs) auto

lemma acceptOrReject_Run_other:
  assumes "v \<noteq> a"
  shows "acceptOrReject a b (snd (Run v p t w)) = acceptOrReject a b w"
proof (cases "a = EmptyUniqueVolumeName")
  case True
  then show ?thesis by (simp add: acceptOrReject_def)
next
  case False
  let ?ops = "operations (pendingOperations w)"
  have app: "isRunningConflict a b (?ops @ [newOperation v p]) = isRunningConflict a b ?ops"
    using assms
    by (simp add: isRunningConflict_append isRunningConflict_Cons isRunningConflict_Nil
        conflictsWith_newOperation)
  have app2: "inBackoffWindow n a b (?ops @ [newOperation v p]) = inBackoffWindow n a b ?ops"
    for n
    using assms by (simp add: inBackoffWindow_def find_append_miss hasKey_newOperation)
  have mb: "isRunningConflict a b (markBusy v p ?ops) = isRunningConflict a b ?ops"
    using assms by (simp add: isRunningConflict_markBusy)
  have mb2: "inBackoffWindow n a b (markBusy v p ?ops) = inBackoffWindow n a b ?ops" for n
    using assms by (simp add: inBackoffWindow_markBusy_other)
  let ?ops' = "operations (pendingOperations (snd (Run v p t w)))"
  have "?ops' = ?ops @ [newOperation v p] \<or> ?ops' = ?ops \<or> ?ops' = markBusy v p ?ops"
    by (simp add: operations_Run Let_def)
  then have "isRunningConflict a b ?ops' = isRunningConflict a b ?ops"
    and "inBackoffWindow (clock w) a b ?ops' = inBackoffWindow (clock w) a b ?ops"
    using app app2 mb mb2 by auto
  then show ?thesis
    by (simp add: acceptOrReject_def Let_def clock_Run)
qed

lemma acceptOrReject_submitOne_other:
  "fst entry \<noteq> p \<Longrightarrow> acceptOrReject p q (submitOne oe a sm entry w) = acceptOrReject p q w"
  by (simp add: submitOne_def Let_def acceptOrReject_emit acceptOrReject_Run_other
      split: option.splits)

lemma trace_submitOne:
  "trace (submitOne oe a sm entry w) = trace w @ bulkEvents oe a sm w entry"
  by (simp add: submitOne_def bulkEvents_def Let_def trace_emit trace_Run fst_Run
      acceptOrReject_emit split: option.splits)

lemma bulkEvents_cong:
  "acceptOrReject (fst entry) '''' w = acceptOrReject (fst entry) '''' w' \<Longrightarrow>
   bulkEvents oe a sm w entry = bulkEvents oe a sm w' entry"
  by (simp add: bulkEvents_def)

lemma trace_submit_all:
  "distinct (map fst entries) \<Longrightarrow>
   trace (submitAll oe a sm entries w) =
     trace w @ concat (map (bulkEvents oe a sm w) entries)"
proof (induction entries arbitrary: w)
  case Nil
  show ?case by (simp add: submitAll_Nil)
next
  case (Cons x entries)
  let ?w' = "submitOne oe a sm x w"
  from Cons.prems have d: "distinct (map fst entries)" and nx: "\<forall>e \<in> set entries. fst x \<noteq> fst e"
    by (auto simp: image_iff)
  have "map (bulkEvents oe a sm ?w') entries = map (bulkEvents oe a sm w) entries"
  proof (rule map_cong[OF refl])
    fix e assume "e \<in> set entries"
    with nx have "fst x \<noteq> fst e" by blast
    then show "bulkEvents oe a sm ?w' e = bulkEvents oe a sm w e"
      by (intro bulkEvents_cong acceptOrReject_submitOne_other)
  qed
  with Cons.IH[OF d, of ?w'] show ?case
    by (simp add: trace_submitOne submitAll_Cons)
qed

text \<open>Pending after a submission.\<close>

lemma isRunningConflict_Run_mono:
  "isRunningConflict a b (operations (pendingOperations w)) \<Longrightarrow>
   isRunningConflict a b (operations (pendingOperations (snd (Run v p t w))))"
  by (simp add: operations_Run Let_def isRunningConflict_append isRunningConflict_markBusy)

lemma isRunningConflict_after_Run:
  assumes "v \<noteq> EmptyUniqueVolumeName"
    and "acceptOrReject v p w \<noteq> Some (ExponentialBackoffError v p)"
  shows "isRunningConflict v p (operations (pendingOperations (snd (Run v p t w))))"
  using assms
  by (auto simp: operations_Run Let_def acceptOrReject_def isRunningConflict_markBusy
      split: if_splits)

lemma operations_submitOne:
  "operations (pendingOperations (submitOne oe a sm entry w)) =
     operations (pendingOperations
       (snd (Run (fst entry) '''' (fst (operationGenerator oe (bulkGenerateCall a sm entry))) w)))"
  by (simp add: submitOne_def Let_def operations_emit operations_Run clock_emit
      split: option.splits)

lemma isRunningConflict_submitOne_mono:
  "isRunningConflict p q (operations (pendingOperations w)) \<Longrightarrow>
   isRunningConflict p q (operations (pendingOperations (submitOne oe a sm entry w)))"
  by (simp add: operations_submitOne isRunningConflict_Run_mono)

lemma isRunningConflict_submit_all_mono:
  "isRunningConflict p q (operations (pendingOperations w)) \<Longrightarrow>
   isRunningConflict p q (operations (pendingOperations
     (submitAll oe a sm entries w)))"
  by (induction entries arbitrary: w)
    (simp_all add: isRunningConflict_submitOne_mono submitAll_Nil submitAll_Cons)

lemma pending_after_submit_all:
  assumes "distinct (map fst entries)" and "entry \<in> set entries"
    and "fst entry \<noteq> EmptyUniqueVolumeName"
    and "acceptOrReject (fst entry) '''' w \<noteq> Some (ExponentialBackoffError (fst entry) '''')"
  shows "isRunningConflict (fst entry) '''' (operations (pendingOperations
     (submitAll oe a sm entries w)))"
  using assms(1,2,4)
proof (induction entries arbitrary: w)
  case Nil
  then show ?case by simp
next
  case (Cons x entries)
  show ?case
  proof (cases "entry = x")
    case True
    have "isRunningConflict (fst entry) ''''
        (operations (pendingOperations (submitOne oe a sm x w)))"
      unfolding operations_submitOne True
      using assms(3) Cons.prems(3) unfolding True
      by (rule isRunningConflict_after_Run)
    then show ?thesis
      by (simp add: isRunningConflict_submit_all_mono submitAll_Cons)
  next
    case False
    with Cons.prems have m: "entry \<in> set entries" and d: "distinct (map fst entries)"
      and ne: "fst x \<noteq> fst entry"
      by (auto simp: image_iff)
    have "acceptOrReject (fst entry) '''' (submitOne oe a sm x w) =
        acceptOrReject (fst entry) '''' w"
      using ne by (rule acceptOrReject_submitOne_other)
    with Cons.prems(3)
    have "acceptOrReject (fst entry) '''' (submitOne oe a sm x w) \<noteq>
        Some (ExponentialBackoffError (fst entry) '''')" by simp
    from Cons.IH[OF d m this] show ?thesis by (simp add: submitAll_Cons)
  qed
qed

lemma acceptOrReject_pending:
  "v \<noteq> EmptyUniqueVolumeName \<Longrightarrow> isRunningConflict v p (operations (pendingOperations w)) \<Longrightarrow>
   acceptOrReject v p w = Some (OperationAlreadyExistsError v p)"
  by (simp add: acceptOrReject_def)

lemma runningUnder_emit: "runningUnder v p (emit e w) = runningUnder v p w"
  by (simp add: runningUnder_def operations_emit)

lemma PerNode_template:
  "VerifyVolumesAreAttachedPerNode oe vs n a w =
     verbTemplate oe (GenerateVolumesAreAttachedFunc vs n a) '''' '''' w"
  by (simp add: VerifyVolumesAreAttachedPerNode_def verbTemplate_def generate_def
      split: prod.splits option.splits)

lemma verbTemplate_generated:
  "operationGenerator oe call = (task, None) \<Longrightarrow>
   verbTemplate oe call v p w = Run v p task (emit (Generate call) w)"
  by (simp add: verbTemplate_def)

lemma runningUnder_PerNode:
  "runningUnder '''' '''' (snd (VerifyVolumesAreAttachedPerNode oe vs n a w)) =
     runningUnder '''' '''' w +
     (if snd (operationGenerator oe (GenerateVolumesAreAttachedFunc vs n a)) = None then 1 else 0)"
  by (cases "operationGenerator oe (GenerateVolumesAreAttachedFunc vs n a)")
    (auto simp: PerNode_template verbTemplate_def runningUnder_Run_sentinel runningUnder_emit)

lemma runningUnder_perNodeCalls:
  "allGenerated oe cs \<Longrightarrow>
   runningUnder '''' '''' (perNodeCalls oe cs w) = runningUnder '''' '''' w + length cs"
proof (induction cs arbitrary: w)
  case Nil
  show ?case by simp
next
  case (Cons c cs)
  from Cons.prems have g: "snd (operationGenerator oe
      (GenerateVolumesAreAttachedFunc (fst c) (fst (snd c)) (snd (snd c)))) = None"
    and rest: "allGenerated oe cs"
    by (simp_all add: allGenerated_def)
  show ?case
    by (simp add: Cons.IH[OF rest] runningUnder_PerNode g)
qed

lemma fst_perNodeCalls_step:
  "fst (VerifyVolumesAreAttachedPerNode oe vs n a w) =
     snd (operationGenerator oe (GenerateVolumesAreAttachedFunc vs n a))"
  by (rule fst_PerNode)

text \<open>The first loop leaves the registry's answers for non-empty volume names alone.\<close>

lemma acceptOrReject_PerNode:
  "p \<noteq> EmptyUniqueVolumeName \<Longrightarrow>
   acceptOrReject p q (snd (VerifyVolumesAreAttachedPerNode oe vs n a w)) = acceptOrReject p q w"
proof -
  assume "p \<noteq> EmptyUniqueVolumeName"
  then have ne: "'''' \<noteq> p" by (auto simp: EmptyUniqueVolumeName_def)
  show ?thesis
    by (cases "operationGenerator oe (GenerateVolumesAreAttachedFunc vs n a)")
      (auto simp: PerNode_template verbTemplate_def acceptOrReject_emit
        acceptOrReject_Run_other[OF ne] split: option.splits)
qed

lemma acceptOrReject_perNodeStep:
  "p \<noteq> EmptyUniqueVolumeName \<Longrightarrow>
   acceptOrReject p q (perNodeStep oe a node vs w) = acceptOrReject p q w"
  using acceptOrReject_PerNode[of p q oe vs node a w]
  by (cases "VerifyVolumesAreAttachedPerNode oe vs node a w")
    (auto simp: perNodeStep_def acceptOrReject_emit split: option.splits)

lemma verifyNodeVolumes_fallback_world:
  "resolvePlugin oe v = Some (spec, pl) \<Longrightarrow> \<not> SupportsBulkVolumeVerification pl \<Longrightarrow>
   verifyNodeVolumes oe a node all (v # rest) (maps, w) = (maps, perNodeStep oe a node all w)"
  by (simp add: verifyNodeVolumes_fallback perNodeStep_def split: prod.splits option.splits)

lemma acceptOrReject_verifyNodeVolumes:
  "p \<noteq> EmptyUniqueVolumeName \<Longrightarrow>
   acceptOrReject p q (snd (verifyNodeVolumes oe a node all rest (maps, w))) =
     acceptOrReject p q w"
proof (induction rest arbitrary: maps w)
  case Nil
  show ?case by simp
next
  case (Cons v rest)
  show ?case
  proof (cases rule: verifyNodeVolumes_cases[of oe v])
    case skip
    then show ?thesis
      using Cons by (simp add: verifyNodeVolumes_skip acceptOrReject_emit)
  next
    case (bulk spec pl)
    then show ?thesis
      using Cons by (simp add: verifyNodeVolumes_bulk)
  next
    case (fallback spec pl)
    then show ?thesis
      using Cons.prems
      by (simp add: verifyNodeVolumes_fallback_world acceptOrReject_perNodeStep)
  qed
qed

lemma acceptOrReject_partitionByPlugin:
  "p \<noteq> EmptyUniqueVolumeName \<Longrightarrow>
   acceptOrReject p q (snd (partitionByPlugin oe a nodes s)) = acceptOrReject p q (snd s)"
proof (induction nodes arbitrary: s)
  case Nil
  show ?case by simp
next
  case (Cons entry nodes)
  obtain node vols where e: "entry = (node, vols)" by (cases entry)
  obtain maps w where s: "s = (maps, w)" by (cases s)
  show ?case
    using Cons.prems by (simp add: e s Cons.IH acceptOrReject_verifyNodeVolumes)
qed

lemma acceptOrReject_partitioned:
  "p \<noteq> EmptyUniqueVolumeName \<Longrightarrow>
   acceptOrReject p q (snd (partitioned oe av a w)) = acceptOrReject p q w"
  by (simp add: partitioned_def acceptOrReject_partitionByPlugin)

lemma snd_verifyNodeVolumes_bulk_then_nonbulk:
  assumes "allOfPlugin oe plA as" "SupportsBulkVolumeVerification plA"
    and "allOfPlugin oe plB bs" "\<not> SupportsBulkVolumeVerification plB"
  shows "snd (verifyNodeVolumes oe a node all (as @ bs) s) =
     (if bs = [] then snd s else perNodeStep oe a node all (snd s))"
  using assms(1)
proof (induction as arbitrary: s)
  case Nil
  obtain maps w where s: "s = (maps, w)" by (cases s)
  show ?case
  proof (cases bs)
    case Nil
    then show ?thesis by simp
  next
    case (Cons b bs')
    with assms(3) obtain spec where "resolvePlugin oe b = Some (spec, plB)"
      using allOfPlugin_resolve[of oe plB bs b] by auto
    then show ?thesis
      using assms(4) Cons by (simp add: s verifyNodeVolumes_fallback_world)
  qed
next
  case (Cons v as)
  obtain maps w where s: "s = (maps, w)" by (cases s)
  from Cons.prems obtain spec where "resolvePlugin oe v = Some (spec, plA)"
    and rest: "allOfPlugin oe plA as"
    using allOfPlugin_resolve[of oe plA "v # as" v] by (auto simp: allOfPlugin_Cons)
  then show ?case
    using assms(2) Cons.IH[OF rest] by (simp add: s verifyNodeVolumes_bulk)
qed

lemma VerifyVolumesAreAttached_world:
  "VerifyVolumesAreAttached oe rangeOrder av a w =
     submitAll oe a (snd (fst (partitioned oe av a w)))
       (rangeOrder (fst (fst (partitioned oe av a w)))) (snd (partitioned oe av a w))"
  by (simp add: VerifyVolumesAreAttached_eq submitBulkVerify_submitAll)

lemma trace_VerifyVolumesAreAttached:
  assumes "mset (rangeOrder (fst (fst (partitioned oe av a w)))) =
      mset (fst (fst (partitioned oe av a w)))"
  shows "trace (VerifyVolumesAreAttached oe rangeOrder av a w) =
     trace (snd (partitioned oe av a w)) @
     concat (map (bulkEvents oe a (snd (fst (partitioned oe av a w)))
                    (snd (partitioned oe av a w)))
               (rangeOrder (fst (fst (partitioned oe av a w)))))"
proof -
  have "distinct (map fst (rangeOrder (fst (fst (partitioned oe av a w)))))"
    using enumerated_keys(1)[OF assms] keys_partitioned(2) by simp
  then show ?thesis
    by (simp add: VerifyVolumesAreAttached_world trace_submit_all)
qed

lemma pending_after_VerifyVolumesAreAttached:
  assumes "mset (rangeOrder (fst (fst (partitioned oe av a w)))) =
      mset (fst (fst (partitioned oe av a w)))"
    and "p \<in> set (accumulatedPlugins oe av)"
    and "p \<noteq> ''''"
    and "acceptOrReject p '''' w \<noteq> Some (ExponentialBackoffError p '''')"
  shows "acceptOrReject p '''' (VerifyVolumesAreAttached oe rangeOrder av a w) =
     Some (OperationAlreadyExistsError p '''')"
proof -
  let ?bulk = "fst (fst (partitioned oe av a w))"
  let ?w1 = "snd (partitioned oe av a w)"
  have d: "distinct (map fst (rangeOrder ?bulk))"
    using enumerated_keys(1)[OF assms(1)] keys_partitioned(2) by simp
  from assms(2) have "p \<in> set (map fst ?bulk)" by (simp only: keys_partitioned(1))
  then obtain entry where e: "entry \<in> set ?bulk" "fst entry = p" by auto
  then have m: "entry \<in> set (rangeOrder ?bulk)"
    using enumerated_keys(2)[OF assms(1)] by simp
  have ne: "p \<noteq> EmptyUniqueVolumeName" using assms(3) by (simp add: EmptyUniqueVolumeName_def)
  have "acceptOrReject p '''' ?w1 \<noteq> Some (ExponentialBackoffError p '''')"
    using assms(4) by (simp add: acceptOrReject_partitioned[OF ne])
  with e(2) ne have "isRunningConflict p '''' (operations (pendingOperations
      (submitAll oe a (snd (fst (partitioned oe av a w))) (rangeOrder ?bulk) ?w1)))"
    using pending_after_submit_all[OF d m, of ?w1 oe a "snd (fst (partitioned oe av a w))"]
    by simp
  then show ?thesis
    using ne by (simp add: VerifyVolumesAreAttached_world acceptOrReject_pending)
qed

text \<open>
  Claim C3. For every input, \<open>AttachVolume\<close>, \<open>DetachVolume\<close>, \<open>UnmountDevice\<close> and
  \<open>VerifyControllerAttachedVolume\<close> submit to the registry under the key (volume name of
  the operation, empty pod name), and \<open>UnmountVolume\<close> under (volume name, pod UID): each
  is the template at that key, which, once the task is generated, is the registry's \<open>Run\<close>
  with that key and that task, so that the registry's entries afterwards are those \<open>Run\<close>
  leaves; and the trace shows one call of \<open>Run\<close> under the key, or none when the
  generation failed.
\<close>
theorem verbs_submit_under_volume_key:
  "AttachVolume oe volumeToAttach attacherUpdater w =
     verbTemplate oe (GenerateAttachVolumeFunc volumeToAttach attacherUpdater)
       (vta_VolumeName volumeToAttach) '''' w \<and>
   DetachVolume oe volumeToDetach verifySafeToDetach attacherUpdater w =
     verbTemplate oe (GenerateDetachVolumeFunc volumeToDetach verifySafeToDetach attacherUpdater)
       (av_VolumeName volumeToDetach) '''' w \<and>
   UnmountDevice oe deviceToDetach mounterUpdater mounter w =
     verbTemplate oe (GenerateUnmountDeviceFunc deviceToDetach mounterUpdater mounter)
       (av_VolumeName deviceToDetach) '''' w \<and>
   VerifyControllerAttachedVolume oe volumeToMount nodeName attacherUpdater w =
     verbTemplate oe
       (GenerateVerifyControllerAttachedVolumeFunc volumeToMount nodeName attacherUpdater)
       (vtm_VolumeName volumeToMount) '''' w \<and>
   UnmountVolume oe volumeToUnmount mounterUpdater w =
     verbTemplate oe (GenerateUnmountVolumeFunc volumeToUnmount mounterUpdater)
       (mv_VolumeName volumeToUnmount) (mv_PodUID volumeToUnmount) w \<and>
   (operationGenerator oe call = (task, None) \<longrightarrow>
      verbTemplate oe call volumeKey podKey w =
        Run volumeKey podKey task (emit (Generate call) w) \<and>
      operations (pendingOperations (snd (verbTemplate oe call volumeKey podKey w))) =
        operations (pendingOperations (snd (Run volumeKey podKey task w)))) \<and>
   runCalls (trace (snd (AttachVolume oe volumeToAttach attacherUpdater w))) =
     runCalls (trace w) @
     submission oe (GenerateAttachVolumeFunc volumeToAttach attacherUpdater)
       (vta_VolumeName volumeToAttach) '''' \<and>
   runCalls (trace (snd (DetachVolume oe volumeToDetach verifySafeToDetach attacherUpdater w))) =
     runCalls (trace w) @
     submission oe (GenerateDetachVolumeFunc volumeToDetach verifySafeToDetach attacherUpdater)
       (av_VolumeName volumeToDetach) '''' \<and>
   runCalls (trace (snd (UnmountDevice oe deviceToDetach mounterUpdater mounter w))) =
     runCalls (trace w) @
     submission oe (GenerateUnmountDeviceFunc deviceToDetach mounterUpdater mounter)
       (av_VolumeName deviceToDetach) '''' \<and>
   runCalls (trace (snd (VerifyControllerAttachedVolume oe volumeToMount nodeName
       attacherUpdater w))) =
     runCalls (trace w) @
     submission oe
       (GenerateVerifyControllerAttachedVolumeFunc volumeToMount nodeName attacherUpdater)
       (vtm_VolumeName volumeToMount) '''' \<and>
   runCalls (trace (snd (UnmountVolume oe volumeToUnmount mounterUpdater w))) =
     runCalls (trace w) @
     submission oe (GenerateUnmountVolumeFunc volumeToUnmount mounterUpdater)
       (mv_VolumeName volumeToUnmount) (mv_PodUID volumeToUnmount)"
proof -
  have gen: "operationGenerator oe call = (task, None) \<longrightarrow>
      verbTemplate oe call volumeKey podKey w =
        Run volumeKey podKey task (emit (Generate call) w) \<and>
      operations (pendingOperations (snd (verbTemplate oe call volumeKey podKey w))) =
        operations (pendingOperations (snd (Run volumeKey podKey task w)))"
    by (simp add: verbTemplate_generated operations_Run Let_def operations_emit clock_emit)
  show ?thesis
    using gen runCalls_of_volume_key_verbs[of oe volumeToAttach attacherUpdater w
        volumeToDetach verifySafeToDetach deviceToDetach mounterUpdater mounter volumeToMount
        nodeName volumeToUnmount]
    by (simp only: AttachVolume_template DetachVolume_template UnmountVolume_template
        UnmountDevice_template VerifyControllerAttachedVolume_template simp_thms)
qed

text \<open>An attach and an unmount on a fresh executor leave their key running in the
  registry and their task spawned; an attach whose generation fails leaves the registry
  empty.\<close>
theorem verbs_submit_under_volume_key_witness:
  "AttachVolume exampleExecutor (attachOf ''vol1'') None world0 =
     Run ''vol1'' '''' (Some 7)
       (emit (Generate (GenerateAttachVolumeFunc (attachOf ''vol1'') None)) world0) \<and>
   operations (pendingOperations (snd (AttachVolume exampleExecutor (attachOf ''vol1'') None
     world0))) = [newOperation ''vol1'' ''''] \<and>
   trace (snd (AttachVolume exampleExecutor (attachOf ''vol1'') None world0)) =
     [Generate (GenerateAttachVolumeFunc (attachOf ''vol1'') None),
      RunCalled ''vol1'' '''' (Some 7), Spawned (Some 7)] \<and>
   operations (pendingOperations (snd (UnmountVolume exampleExecutor (unmountOf ''uid-1'') None
     world0))) = [newOperation ''vol1'' ''uid-1''] \<and>
   runCalls (trace (snd (UnmountVolume exampleExecutor (unmountOf ''uid-1'') None world0))) =
     [(''vol1'', ''uid-1'', Some 7)] \<and>
   operations (pendingOperations (snd (AttachVolume failingExecutor (attachOf ''vol1'') None
     world0))) = [] \<and>
   runCalls (trace (snd (AttachVolume failingExecutor (attachOf ''vol1'') None world0))) = []"
proof -
  let ?ca = "GenerateAttachVolumeFunc (attachOf ''vol1'') None"
  let ?cu = "GenerateUnmountVolumeFunc (unmountOf ''uid-1'') None"
  have g: "operationGenerator exampleExecutor ?ca = (Some 7, None)"
    "operationGenerator exampleExecutor ?cu = (Some 7, None)"
    by (simp_all add: example_eval)
  have side: "runCalls (trace world0) = []"
    "submission exampleExecutor ?cu v p = [(v, p, Some 7)]"
    "submission failingExecutor c v p = []"
    "vta_VolumeName (attachOf ''vol1'') = ''vol1''"
    "mv_VolumeName (unmountOf ''uid-1'') = ''vol1''" "mv_PodUID (unmountOf ''uid-1'') = ''uid-1''"
    for c v p
    by (simp_all add: verb_eval example_eval registry_eval)
  have run: "operations (pendingOperations (snd (Run ''vol1'' p (Some 7) world0))) =
      [newOperation ''vol1'' p]"
    "trace (snd (Run ''vol1'' '''' (Some 7) (emit (Generate ?ca) world0))) =
      [Generate ?ca, RunCalled ''vol1'' '''' (Some 7), Spawned (Some 7)]"
    for p
    by (simp_all add: world0_def registry_eval)
  have failed: "verbTemplate failingExecutor ?ca ''vol1'' '''' world0 =
      (Some (Err ''cannot build task''), emit (Generate ?ca) world0)"
    "operations (pendingOperations (emit (Generate ?ca) world0)) = []"
    by (simp_all add: verbTemplate_def example_eval registry_eval)
  note t1 = verbs_submit_under_volume_key[where oe = exampleExecutor
        and volumeToAttach = "attachOf ''vol1''" and attacherUpdater = None and w = world0
        and volumeToUnmount = "unmountOf ''uid-1''" and mounterUpdater = None
        and call = ?ca and task = "Some 7" and volumeKey = "''vol1''" and podKey = "''''"]
  note t2 = verbs_submit_under_volume_key[where oe = exampleExecutor
        and volumeToAttach = "attachOf ''vol1''" and attacherUpdater = None and w = world0
        and volumeToUnmount = "unmountOf ''uid-1''" and mounterUpdater = None
        and call = ?cu and task = "Some 7" and volumeKey = "''vol1''" and podKey = "''uid-1''"]
  note t3 = verbs_submit_under_volume_key[where oe = failingExecutor
        and volumeToAttach = "attachOf ''vol1''" and attacherUpdater = None and w = world0]
  note attach = t1[THEN conjunct1]
  note generated = t1[THEN conjunct2, THEN conjunct2, THEN conjunct2, THEN conjunct2, THEN conjunct2, THEN conjunct1, THEN mp, OF g(1)]
  note unmount = t2[THEN conjunct2, THEN conjunct2, THEN conjunct2, THEN conjunct2, THEN conjunct1]
  note generated_u = t2[THEN conjunct2, THEN conjunct2, THEN conjunct2, THEN conjunct2, THEN conjunct2, THEN conjunct1, THEN mp, OF g(2)]
  note unmount_calls = t2[THEN conjunct2, THEN conjunct2, THEN conjunct2, THEN conjunct2, THEN conjunct2, THEN conjunct2, THEN conjunct2, THEN conjunct2, THEN conjunct2, THEN conjunct2]
  note attach_failed = t3[THEN conjunct1]
  note attach_failed_calls = t3[THEN conjunct2, THEN conjunct2, THEN conjunct2, THEN conjunct2, THEN conjunct2, THEN conjunct2, THEN conjunct1]
  have a: "AttachVolume exampleExecutor (attachOf ''vol1'') None world0 =
      Run ''vol1'' '''' (Some 7) (emit (Generate ?ca) world0)"
    "operations (pendingOperations (snd (AttachVolume exampleExecutor (attachOf ''vol1'') None
       world0))) = [newOperation ''vol1'' '''']"
    using attach generated[THEN conjunct1] generated[THEN conjunct2] side run by simp_all
  have u: "operations (pendingOperations (snd (UnmountVolume exampleExecutor
       (unmountOf ''uid-1'') None world0))) = [newOperation ''vol1'' ''uid-1'']"
    "runCalls (trace (snd (UnmountVolume exampleExecutor (unmountOf ''uid-1'') None world0))) =
      [(''vol1'', ''uid-1'', Some 7)]"
    using unmount generated_u[THEN conjunct1] generated_u[THEN conjunct2] unmount_calls side run
    by simp_all
  have f: "operations (pendingOperations (snd (AttachVolume failingExecutor (attachOf ''vol1'')
       None world0))) = []"
    "runCalls (trace (snd (AttachVolume failingExecutor (attachOf ''vol1'') None world0))) = []"
    using attach_failed attach_failed_calls side failed by simp_all
  from a run(2) have tr: "trace (snd (AttachVolume exampleExecutor (attachOf ''vol1'') None
      world0)) = [Generate ?ca, RunCalled ''vol1'' '''' (Some 7), Spawned (Some 7)]"
    by simp
  from a u f tr show ?thesis by simp
qed

text \<open>
  Claim C7. For every input, \<open>VerifyVolumesAreAttachedPerNode\<close> submits under the key
  (empty volume name, empty pod name): it is the template at that key. The registry
  accepts every submission under that key, whatever is already running, so the method
  returns exactly the generator's error, and each call whose task is generated adds a
  running entry to the registry of the world it returns: after any number of such calls
  that many more verifications are pending at once.
\<close>
theorem per_node_verification_is_never_serialised:
  "VerifyVolumesAreAttachedPerNode oe attachedVolumes nodeName attacherUpdater w =
     verbTemplate oe (GenerateVolumesAreAttachedFunc attachedVolumes nodeName attacherUpdater)
       '''' '''' w \<and>
   runningUnder '''' '''' (snd (VerifyVolumesAreAttachedPerNode oe attachedVolumes nodeName
       attacherUpdater w)) =
     runningUnder '''' '''' w +
     (if snd (operationGenerator oe
               (GenerateVolumesAreAttachedFunc attachedVolumes nodeName attacherUpdater)) = None
      then 1 else 0) \<and>
   (allGenerated oe calls \<longrightarrow>
      runningUnder '''' '''' (perNodeCalls oe calls w) = runningUnder '''' '''' w + length calls) \<and>
   runCalls (trace (snd (VerifyVolumesAreAttachedPerNode oe attachedVolumes nodeName
       attacherUpdater w))) =
     runCalls (trace w) @
     submission oe (GenerateVolumesAreAttachedFunc attachedVolumes nodeName attacherUpdater)
       '''' '''' \<and>
   fst (VerifyVolumesAreAttachedPerNode oe attachedVolumes nodeName attacherUpdater w) =
     snd (operationGenerator oe
            (GenerateVolumesAreAttachedFunc attachedVolumes nodeName attacherUpdater)) \<and>
   fst (Run '''' '''' task w) = None \<and>
   runningUnder '''' '''' (snd (Run '''' '''' task w)) = Suc (runningUnder '''' '''' w)"
proof (intro conjI impI)
  show "VerifyVolumesAreAttachedPerNode oe attachedVolumes nodeName attacherUpdater w =
     verbTemplate oe (GenerateVolumesAreAttachedFunc attachedVolumes nodeName attacherUpdater)
       '''' '''' w"
    by (rule PerNode_template)
  show "runningUnder '''' '''' (snd (VerifyVolumesAreAttachedPerNode oe attachedVolumes nodeName
       attacherUpdater w)) =
     runningUnder '''' '''' w +
     (if snd (operationGenerator oe
               (GenerateVolumesAreAttachedFunc attachedVolumes nodeName attacherUpdater)) = None
      then 1 else 0)"
    by (rule runningUnder_PerNode)
  assume "allGenerated oe calls"
  then show "runningUnder '''' '''' (perNodeCalls oe calls w) =
      runningUnder '''' '''' w + length calls"
    by (rule runningUnder_perNodeCalls)
qed (simp_all only: runCalls_of_per_node_verification[of oe attachedVolumes
      nodeName attacherUpdater w task])

text \<open>Three per-node verifications in a row on a fresh executor: all three are accepted
  and three entries run under the empty key.\<close>
theorem per_node_verification_is_never_serialised_witness:
  "allGenerated exampleExecutor
     [([], ''node1'', None), ([], ''node2'', None), ([], ''node3'', None)] \<and>
   runningUnder '''' '''' (perNodeCalls exampleExecutor
     [([], ''node1'', None), ([], ''node2'', None), ([], ''node3'', None)] world0) = 3 \<and>
   fst (VerifyVolumesAreAttachedPerNode exampleExecutor [] ''node2'' None
     (snd (VerifyVolumesAreAttachedPerNode exampleExecutor [] ''node1'' None world0))) = None \<and>
   runningUnder '''' '''' (snd (VerifyVolumesAreAttachedPerNode exampleExecutor [] ''node2'' None
     (snd (VerifyVolumesAreAttachedPerNode exampleExecutor [] ''node1'' None world0)))) = 2"
proof -
  let ?cs = "[([], ''node1'', None), ([], ''node2'', None), ([], ''node3'', None)]
    :: (AttachedVolume list \<times> NodeName \<times> ref) list"
  let ?w1 = "snd (VerifyVolumesAreAttachedPerNode exampleExecutor [] ''node1'' None world0)"
  have g: "allGenerated exampleExecutor ?cs"
    "snd (operationGenerator exampleExecutor (GenerateVolumesAreAttachedFunc [] n None)) = None"
    for n
    by (simp_all add: allGenerated_def example_eval)
  have z: "runningUnder '''' '''' world0 = 0"
    by (simp add: world0_def registry_eval)
  note t0 = per_node_verification_is_never_serialised[of exampleExecutor "[]" "''node1''" None
      world0 ?cs]
  note t1 = per_node_verification_is_never_serialised[of exampleExecutor "[]" "''node2''" None
      ?w1 ?cs]
  have one: "runningUnder '''' '''' ?w1 = 1"
    using t0[THEN conjunct2, THEN conjunct1] g(2) z by simp
  have "runningUnder '''' '''' (perNodeCalls exampleExecutor ?cs world0) =
      runningUnder '''' '''' world0 + length ?cs"
    using t0[THEN conjunct2, THEN conjunct2, THEN conjunct1, THEN mp, OF g(1)] .
  then have "runningUnder '''' '''' (perNodeCalls exampleExecutor ?cs world0) = 3"
    using z by simp
  moreover have "fst (VerifyVolumesAreAttachedPerNode exampleExecutor [] ''node2'' None ?w1) =
      None"
    using t1[THEN conjunct2, THEN conjunct2, THEN conjunct2, THEN conjunct2, THEN conjunct1]
      g(2) by simp
  moreover have "runningUnder '''' '''' (snd (VerifyVolumesAreAttachedPerNode exampleExecutor []
      ''node2'' None ?w1)) = 2"
    using t1[THEN conjunct2, THEN conjunct1] g(2) one by simp
  ultimately show ?thesis using g(1) by blast
qed

text \<open>
  Claim C2, as amended. \<open>MountVolume\<close> is the common body of the verbs run under the key
  (volume name, empty pod identifier) when \<open>PluginIsAttachable\<close> is true and under
  (volume name, unique name of \<open>volumeToMount.Pod\<close>) when it is false: the result and the
  world it leaves are those of that body, and when generation succeeds they are those of
  the registry's \<open>Run\<close> with that key and the generated task. For two mounts of
  the same volume whose pods have different, non-empty unique names, the second key
  conflicts with the operation created for the first exactly when the plugin is attachable;
  when the volume name is not empty either and the first mount was accepted, a second mount
  whose task generates is rejected with \<open>OperationAlreadyExistsError\<close> when the plugin is
  attachable and is otherwise answered as it would have been without the first mount.
\<close>
theorem mount_key_follows_attachability:
  "MountVolume oe timeout m a w =
     verbTemplate oe (GenerateMountVolumeFunc timeout m a) (vtm_VolumeName m)
       (if vtm_PluginIsAttachable m then '''' else GetUniquePodName oe (vtm_Pod m)) w \<and>
   (operationGenerator oe (GenerateMountVolumeFunc timeout m a) = (task, None) \<longrightarrow>
      MountVolume oe timeout m a w =
        Run (vtm_VolumeName m)
          (if vtm_PluginIsAttachable m then '''' else GetUniquePodName oe (vtm_Pod m)) task
          (emit (Generate (GenerateMountVolumeFunc timeout m a)) w)) \<and>
   runCalls (trace (snd (MountVolume oe timeout m a w))) =
     runCalls (trace w) @
     submission oe (GenerateMountVolumeFunc timeout m a) (vtm_VolumeName m)
       (if vtm_PluginIsAttachable m then '''' else GetUniquePodName oe (vtm_Pod m)) \<and>
   (vtm_VolumeName m2 = vtm_VolumeName m \<and>
    vtm_PluginIsAttachable m2 = vtm_PluginIsAttachable m \<and>
    GetUniquePodName oe (vtm_Pod m) \<noteq> GetUniquePodName oe (vtm_Pod m2) \<and>
    GetUniquePodName oe (vtm_Pod m) \<noteq> '''' \<and> GetUniquePodName oe (vtm_Pod m2) \<noteq> '''' \<longrightarrow>
      (conflictsWith (vtm_VolumeName m2) (mountPodKey oe m2)
         (newOperation (vtm_VolumeName m) (mountPodKey oe m)) \<longleftrightarrow> vtm_PluginIsAttachable m) \<and>
      (vtm_VolumeName m \<noteq> '''' \<and>
       snd (operationGenerator oe (GenerateMountVolumeFunc timeout2 m2 a2)) = None \<and>
       fst (MountVolume oe timeout m a w) = None \<longrightarrow>
         fst (MountVolume oe timeout2 m2 a2 (snd (MountVolume oe timeout m a w))) =
           (if vtm_PluginIsAttachable m
            then Some (OperationAlreadyExistsError (vtm_VolumeName m) '''')
            else acceptOrReject (vtm_VolumeName m2) (GetUniquePodName oe (vtm_Pod m2)) w)))"
proof -
  have t: "MountVolume oe timeout m a w =
     verbTemplate oe (GenerateMountVolumeFunc timeout m a) (vtm_VolumeName m)
       (if vtm_PluginIsAttachable m then '''' else GetUniquePodName oe (vtm_Pod m)) w"
    by (simp add: MountVolume_template mountPodKey_def EmptyUniquePodName_def)
  have r: "operationGenerator oe (GenerateMountVolumeFunc timeout m a) = (task, None) \<longrightarrow>
      MountVolume oe timeout m a w =
        Run (vtm_VolumeName m)
          (if vtm_PluginIsAttachable m then '''' else GetUniquePodName oe (vtm_Pod m)) task
          (emit (Generate (GenerateMountVolumeFunc timeout m a)) w)"
    by (simp add: t verbTemplate_def)
  show ?thesis
    by (rule conjI[OF t conjI[OF r
          runCalls_and_conflict_of_MountVolume[of oe timeout m a w m2 timeout2 a2]]])
qed

theorem mount_key_follows_attachability_witness:
  "fst (MountVolume exampleExecutor 5 (mountOf True 1) None world0) = None \<and>
   operations (pendingOperations (snd (MountVolume exampleExecutor 5 (mountOf True 1) None
     world0))) = [newOperation ''vol1'' ''''] \<and>
   fst (MountVolume exampleExecutor 5 (mountOf True 2) None
          (snd (MountVolume exampleExecutor 5 (mountOf True 1) None world0))) =
     Some (OperationAlreadyExistsError ''vol1'' '''') \<and>
   fst (MountVolume exampleExecutor 5 (mountOf False 1) None world0) = None \<and>
   fst (MountVolume exampleExecutor 5 (mountOf False 2) None
          (snd (MountVolume exampleExecutor 5 (mountOf False 1) None world0))) = None \<and>
   operations (pendingOperations (snd (MountVolume exampleExecutor 5 (mountOf False 2) None
          (snd (MountVolume exampleExecutor 5 (mountOf False 1) None world0))))) =
     [newOperation ''vol1'' ''pod1'', newOperation ''vol1'' ''pod2''] \<and>
   runCalls (trace (snd (MountVolume exampleExecutor 5 (mountOf False 2) None
          (snd (MountVolume exampleExecutor 5 (mountOf False 1) None world0))))) =
     [(''vol1'', ''pod1'', Some 7), (''vol1'', ''pod2'', Some 7)]"
proof -
  let ?wa = "snd (MountVolume exampleExecutor 5 (mountOf True 1) None world0)"
  let ?wb = "snd (MountVolume exampleExecutor 5 (mountOf False 1) None world0)"
  have gen: "operationGenerator exampleExecutor (GenerateMountVolumeFunc 5 mm None) =
      (Some 7, None)" for mm
    by (simp add: example_eval)
  have r0: "runCalls (trace world0) = []"
    by (simp add: verb_eval example_eval registry_eval)
  have free: "acceptOrReject ''vol1'' ''pod2'' world0 = None"
    by (simp add: verb_eval example_eval registry_eval)
  have side: "vtm_VolumeName (mountOf True 2) = vtm_VolumeName (mountOf True 1)"
    "vtm_VolumeName (mountOf False 2) = vtm_VolumeName (mountOf False 1)"
    "vtm_VolumeName (mountOf True 1) = ''vol1''" "vtm_VolumeName (mountOf False 1) = ''vol1''"
    "vtm_PluginIsAttachable (mountOf True 2)" "vtm_PluginIsAttachable (mountOf True 1)"
    "\<not> vtm_PluginIsAttachable (mountOf False 2)" "\<not> vtm_PluginIsAttachable (mountOf False 1)"
    "GetUniquePodName exampleExecutor (vtm_Pod (mountOf True 1)) = ''pod1''"
    "GetUniquePodName exampleExecutor (vtm_Pod (mountOf True 2)) = ''pod2''"
    "GetUniquePodName exampleExecutor (vtm_Pod (mountOf False 1)) = ''pod1''"
    "GetUniquePodName exampleExecutor (vtm_Pod (mountOf False 2)) = ''pod2''"
    "snd (operationGenerator exampleExecutor c) = None"
    "submission exampleExecutor (GenerateMountVolumeFunc 5 (mountOf False 1) None) v p =
       [(v, p, Some 7)]"
    "submission exampleExecutor (GenerateMountVolumeFunc 5 (mountOf False 2) None) v p =
       [(v, p, Some 7)]" for c v p
    by (simp_all add: example_eval submission_def split: gen_call.splits)
  note t1 = mount_key_follows_attachability[of exampleExecutor 5 "mountOf True 1" None world0
      "Some 7" "mountOf True 2" 5 None]
  note t2 = mount_key_follows_attachability[of exampleExecutor 5 "mountOf False 1" None world0
      "Some 7" "mountOf False 2" 5 None]
  note t3 = mount_key_follows_attachability[of exampleExecutor 5 "mountOf False 2" None ?wb
      "Some 7" "mountOf False 2" 5 None]
  note run1 = t1[THEN conjunct2, THEN conjunct1, THEN mp, OF gen]
  note run2 = t2[THEN conjunct2, THEN conjunct1, THEN mp, OF gen]
  note run3 = t3[THEN conjunct2, THEN conjunct1, THEN mp, OF gen]
  have a1: "fst (MountVolume exampleExecutor 5 (mountOf True 1) None world0) = None"
    unfolding run1 by (simp add: example_eval registry_eval)
  have a2: "operations (pendingOperations ?wa) = [newOperation ''vol1'' '''']"
    unfolding run1 by (simp add: example_eval registry_eval)
  have b1: "fst (MountVolume exampleExecutor 5 (mountOf False 1) None world0) = None"
    unfolding run2 by (simp add: example_eval registry_eval)
  have b2: "operations (pendingOperations ?wb) = [newOperation ''vol1'' ''pod1'']"
    unfolding run2 by (simp add: example_eval registry_eval)
  have b3: "operations (pendingOperations (snd (MountVolume exampleExecutor 5 (mountOf False 2)
      None ?wb))) = [newOperation ''vol1'' ''pod1'', newOperation ''vol1'' ''pod2'']"
    unfolding run3 using b2 by (simp add: example_eval registry_eval)
  from t1[THEN conjunct2, THEN conjunct2, THEN conjunct2] a1 side
  have c1: "fst (MountVolume exampleExecutor 5 (mountOf True 2) None ?wa) =
     Some (OperationAlreadyExistsError ''vol1'' '''')" by simp
  from t2[THEN conjunct2, THEN conjunct2, THEN conjunct2] b1 side free
  have c2: "fst (MountVolume exampleExecutor 5 (mountOf False 2) None ?wb) = None" by simp
  from t2[THEN conjunct2, THEN conjunct2, THEN conjunct1] side r0
  have c3: "runCalls (trace ?wb) = [(''vol1'', ''pod1'', Some 7)]" by simp
  from t3[THEN conjunct2, THEN conjunct2, THEN conjunct1] side c3
  have c4: "runCalls (trace (snd (MountVolume exampleExecutor 5 (mountOf False 2)
      None ?wb))) = [(''vol1'', ''pod1'', Some 7), (''vol1'', ''pod2'', Some 7)]" by simp
  from a1 a2 b1 b3 c1 c2 c4 show ?thesis by simp
qed

text \<open>
  Without the restriction to named pods and a named volume the conflict half fails. With a
  non-attachable plugin, a mount for pod 3, whose unique name is empty, is rejected while the
  mount of the same volume for pod 1 is running: the empty pod identifier conflicts with
  every pod identifier. With an attachable plugin, two mounts of the volume with the empty
  name, for pods 1 and 2, are both accepted: the empty volume name is never rejected.
\<close>
theorem mount_key_conflict_needs_named_pods_counterexample:
  "vtm_Pod (mountNamed ''vol1'' False 1) \<noteq> vtm_Pod (mountNamed ''vol1'' False 3) \<and>
   vtm_VolumeName (mountNamed ''vol1'' False 1) = vtm_VolumeName (mountNamed ''vol1'' False 3) \<and>
   \<not> vtm_PluginIsAttachable (mountNamed ''vol1'' False 1) \<and>
   \<not> vtm_PluginIsAttachable (mountNamed ''vol1'' False 3) \<and>
   fst (MountVolume emptyNameExecutor 5 (mountNamed ''vol1'' False 1) None world0) = None \<and>
   fst (MountVolume emptyNameExecutor 5 (mountNamed ''vol1'' False 3) None
          (snd (MountVolume emptyNameExecutor 5 (mountNamed ''vol1'' False 1) None world0))) =
     Some (OperationAlreadyExistsError ''vol1'' '''') \<and>
   vtm_Pod (mountNamed '''' True 1) \<noteq> vtm_Pod (mountNamed '''' True 2) \<and>
   vtm_VolumeName (mountNamed '''' True 1) = vtm_VolumeName (mountNamed '''' True 2) \<and>
   vtm_PluginIsAttachable (mountNamed '''' True 1) \<and>
   vtm_PluginIsAttachable (mountNamed '''' True 2) \<and>
   fst (MountVolume emptyNameExecutor 5 (mountNamed '''' True 1) None world0) = None \<and>
   fst (MountVolume emptyNameExecutor 5 (mountNamed '''' True 2) None
          (snd (MountVolume emptyNameExecutor 5 (mountNamed '''' True 1) None world0))) = None"
  by (simp add: verb_eval example_eval registry_eval emptyNameExecutor_def
      podNamesWithEmpty_def mountNamed_def emit_def)

lemma submitOne_failed_generation:
  assumes "operationGenerator oe (bulkGenerateCall a sm entry) = (task, Some err)"
  shows "submitOne oe a sm entry w =
     (case Run (fst entry) '''' task
             (emit (Errorf (BulkGenerateError (fst entry) err))
                (emit (Generate (bulkGenerateCall a sm entry)) w)) of
        (Some e, w3) \<Rightarrow> emit (Errorf (BulkRunError (fst entry) e)) w3
      | (None, w3) \<Rightarrow> w3)"
  by (simp add: submitOne_def assms Let_def split: prod.splits option.splits)

lemma bulkEvents_failed_generation:
  assumes "operationGenerator oe (bulkGenerateCall a sm entry) = (task, Some err)"
  shows "bulkEvents oe a sm w entry =
     [Generate (bulkGenerateCall a sm entry), Errorf (BulkGenerateError (fst entry) err),
      RunCalled (fst entry) '''' task] @
     (case acceptOrReject (fst entry) '''' w of
        None \<Rightarrow> [Spawned task]
      | Some e \<Rightarrow> [Errorf (BulkRunError (fst entry) e)])"
  by (simp add: bulkEvents_def assms Let_def cong: option.case_cong)

lemma bulk_map_when_bulk_volumes_come_first:
  assumes "node1 \<noteq> node2"
    and "allOfPlugin oe pluginA (as1 @ as2)" and "SupportsBulkVolumeVerification pluginA"
    and "allOfPlugin oe pluginB (bs1 @ bs2)" and "\<not> SupportsBulkVolumeVerification pluginB"
    and "as1 \<noteq> []" and "as2 \<noteq> []"
  shows "fst (fst (partitioned oe [(node1, as1 @ bs1), (node2, as2 @ bs2)] updater w)) =
      [(GetPluginName pluginA, [(node1, specsOf as1), (node2, specsOf as2)])]"
proof -
  let ?A = "GetPluginName pluginA"
  from assms(2) have a1: "allOfPlugin oe pluginA as1" and a2: "allOfPlugin oe pluginA as2"
    by (simp_all add: allOfPlugin_append)
  from assms(4) have b1: "allOfPlugin oe pluginB bs1" and b2: "allOfPlugin oe pluginB bs2"
    by (simp_all add: allOfPlugin_append)
  note e1 = examined_bulk_then_nonbulk[OF a1 assms(3) b1 assms(5)]
  note e2 = examined_bulk_then_nonbulk[OF a2 assms(3) b2 assms(5)]
  let ?m1 = "foldl (accumulateVolume oe node1) ([], []) as1"
  have f1: "fst ?m1 = [(?A, [(node1, specsOf as1)])]"
    using assms(6) by (simp add: foldl_accumulate_one_plugin[OF a1 assms(3)] lookup_Nil)
  have "fst (foldl (accumulateVolume oe node2) ?m1 as2) =
      [(?A, [(node1, specsOf as1), (node2, specsOf as2)])]"
    using assms(7) assms(1)
    by (simp add: foldl_accumulate_one_plugin[OF a2 assms(3)] f1 lookup_def)
  then show ?thesis
    by (simp add: fst_partitioned e1 e2)
qed

lemma world_when_bulk_volumes_come_first:
  assumes "allOfPlugin oe pluginA (as1 @ as2)" and "SupportsBulkVolumeVerification pluginA"
    and "allOfPlugin oe pluginB (bs1 @ bs2)" and "\<not> SupportsBulkVolumeVerification pluginB"
    and "bs1 \<noteq> []" and "bs2 \<noteq> []"
  shows "snd (partitioned oe [(node1, as1 @ bs1), (node2, as2 @ bs2)] updater w) =
      perNodeStep oe updater node2 (as2 @ bs2) (perNodeStep oe updater node1 (as1 @ bs1) w)"
proof -
  from assms(1) have a1: "allOfPlugin oe pluginA as1" and a2: "allOfPlugin oe pluginA as2"
    by (simp_all add: allOfPlugin_append)
  from assms(3) have b1: "allOfPlugin oe pluginB bs1" and b2: "allOfPlugin oe pluginB bs2"
    by (simp_all add: allOfPlugin_append)
  note s1 = snd_verifyNodeVolumes_bulk_then_nonbulk[OF a1 assms(2) b1 assms(4)]
  note s2 = snd_verifyNodeVolumes_bulk_then_nonbulk[OF a2 assms(2) b2 assms(4)]
  show ?thesis
    using assms(5,6) by (simp add: partitioned_def s1 s2)
qed

text \<open>
  Claim C6. After the first loop, \<open>VerifyVolumesAreAttached\<close> leaves the world that results
  from one step per entry of \<open>bulkVerifyPluginsByNode\<close>, each step generating the bulk task
  and calling the registry's \<open>Run\<close> with the entry's plugin name and the empty pod name;
  the names of the entries are distinct and are the names of the plugins that accumulated
  a volume, whatever order the map is enumerated in. The trace grows by the events of
  these steps, and a plugin that accumulated a volume, whose name is not empty and whose key
  was not inside a backoff window, has an operation running under (plugin name, empty pod
  name) in the registry of the world returned. Of the calls of \<open>Run\<close> the second loop makes,
  exactly one is under the name of each such plugin and none under any other name, and all
  have the empty pod name.
\<close>
theorem one_bulk_submission_per_accumulated_plugin:
  assumes "\<forall>b. mset (rangeOrder b) = mset b"
  shows "VerifyVolumesAreAttached oe rangeOrder attachedVolumes updater w =
      submitAll oe updater (snd (fst (partitioned oe attachedVolumes updater w)))
        (rangeOrder (fst (fst (partitioned oe attachedVolumes updater w))))
        (snd (partitioned oe attachedVolumes updater w)) \<and>
    distinct (map fst (rangeOrder (fst (fst (partitioned oe attachedVolumes updater w))))) \<and>
    set (map fst (rangeOrder (fst (fst (partitioned oe attachedVolumes updater w))))) =
      set (accumulatedPlugins oe attachedVolumes) \<and>
    trace (VerifyVolumesAreAttached oe rangeOrder attachedVolumes updater w) =
      trace (snd (partitioned oe attachedVolumes updater w)) @
      concat (map (bulkEvents oe updater (snd (fst (partitioned oe attachedVolumes updater w)))
                     (snd (partitioned oe attachedVolumes updater w)))
                (rangeOrder (fst (fst (partitioned oe attachedVolumes updater w))))) \<and>
    (pluginName \<in> set (accumulatedPlugins oe attachedVolumes) \<and> pluginName \<noteq> '''' \<and>
     acceptOrReject pluginName '''' w \<noteq> Some (ExponentialBackoffError pluginName '''') \<longrightarrow>
       acceptOrReject pluginName ''''
           (VerifyVolumesAreAttached oe rangeOrder attachedVolumes updater w) =
         Some (OperationAlreadyExistsError pluginName '''')) \<and>
    runCalls (trace (VerifyVolumesAreAttached oe rangeOrder attachedVolumes updater w)) =
      runCalls (trace (snd (partitioned oe attachedVolumes updater w))) @
      bulkRunCalls oe rangeOrder attachedVolumes updater w \<and>
    length (submissionsUnder pluginName (bulkRunCalls oe rangeOrder attachedVolumes updater w)) =
      (if pluginName \<in> set (accumulatedPlugins oe attachedVolumes) then 1 else 0) \<and>
    map (\<lambda>c. fst (snd c)) (bulkRunCalls oe rangeOrder attachedVolumes updater w) =
      replicate (length (bulkRunCalls oe rangeOrder attachedVolumes updater w)) ''''"
proof -
  let ?bulk = "fst (fst (partitioned oe attachedVolumes updater w))"
  from assms have perm: "mset (rangeOrder ?bulk) = mset ?bulk" by simp
  have c1: "VerifyVolumesAreAttached oe rangeOrder attachedVolumes updater w =
      submitAll oe updater (snd (fst (partitioned oe attachedVolumes updater w)))
        (rangeOrder ?bulk) (snd (partitioned oe attachedVolumes updater w))"
    by (rule VerifyVolumesAreAttached_world)
  have c2: "distinct (map fst (rangeOrder ?bulk))"
    using enumerated_keys(1)[OF perm] keys_partitioned(2) by simp
  have c3: "set (map fst (rangeOrder ?bulk)) = set (accumulatedPlugins oe attachedVolumes)"
    using enumerated_keys(2)[OF perm] keys_partitioned(1)[of oe attachedVolumes updater w]
    by simp
  note c4 = trace_VerifyVolumesAreAttached[of rangeOrder oe attachedVolumes updater w, OF perm]
  have c5: "pluginName \<in> set (accumulatedPlugins oe attachedVolumes) \<and> pluginName \<noteq> '''' \<and>
     acceptOrReject pluginName '''' w \<noteq> Some (ExponentialBackoffError pluginName '''') \<longrightarrow>
       acceptOrReject pluginName ''''
           (VerifyVolumesAreAttached oe rangeOrder attachedVolumes updater w) =
         Some (OperationAlreadyExistsError pluginName '''')"
    using pending_after_VerifyVolumesAreAttached[of rangeOrder oe attachedVolumes updater w
        pluginName, OF perm] by blast
  note old = runCalls_of_bulk_submissions[OF assms,
      of oe attachedVolumes updater w pluginName]
  show ?thesis
    by (rule conjI[OF c1 conjI[OF c2 conjI[OF c3 conjI[OF c4 conjI[OF c5 old]]]]])
qed

theorem one_bulk_submission_per_accumulated_plugin_witness:
  "(\<forall>b :: bulkVerifyPlugins. mset (id b) = mset b) \<and>
   accumulatedPlugins exampleExecutor bulkFirst = [''A'', ''A''] \<and>
   operations (pendingOperations
       (VerifyVolumesAreAttached exampleExecutor id bulkFirst None world0)) =
     [newOperation '''' '''', newOperation '''' '''', newOperation ''A'' ''''] \<and>
   acceptOrReject ''A'' '''' (VerifyVolumesAreAttached exampleExecutor id bulkFirst None world0) =
     Some (OperationAlreadyExistsError ''A'' '''') \<and>
   runCalls (trace (VerifyVolumesAreAttached exampleExecutor id bulkFirst None world0)) =
     [('''', '''', Some 200), ('''', '''', Some 200), (''A'', '''', Some 100)] \<and>
   length (submissionsUnder ''A'' (bulkRunCalls exampleExecutor id bulkFirst None world0)) = 1 \<and>
   length (submissionsUnder ''B'' (bulkRunCalls exampleExecutor id bulkFirst None world0)) = 0"
proof -
  have perm: "\<forall>b :: bulkVerifyPlugins. mset (id b) = mset b" by simp
  note t = one_bulk_submission_per_accumulated_plugin[OF perm,
      of exampleExecutor bulkFirst None world0]
  have acc: "accumulatedPlugins exampleExecutor bulkFirst = [''A'', ''A'']"
    by (simp add: partition_eval example_eval)
  note eval = partitioned_def bulkFirst_def verifyNodeVolumes.simps(2) example_eval verb_eval
    registry_eval accumulate_def Let_def lookup_def bulkGenerateCall_def
  have calls1: "runCalls (trace (snd (partitioned exampleExecutor bulkFirst None world0))) =
      [('''', '''', Some 200), ('''', '''', Some 200)]"
    by (simp add: eval)
  have ops: "operations (pendingOperations
       (VerifyVolumesAreAttached exampleExecutor id bulkFirst None world0)) =
     [newOperation '''' '''', newOperation '''' '''', newOperation ''A'' '''']"
    unfolding t[where pluginName = "''A''", THEN conjunct1]
    by (simp add: submitAll_def submitOne_def eval)
  have free: "acceptOrReject ''A'' '''' world0 \<noteq> Some (ExponentialBackoffError ''A'' '''')"
    by (simp add: verb_eval example_eval registry_eval)
  have busy: "acceptOrReject ''A'' ''''
      (VerifyVolumesAreAttached exampleExecutor id bulkFirst None world0) =
     Some (OperationAlreadyExistsError ''A'' '''')"
    using t[where pluginName = "''A''", THEN conjunct2, THEN conjunct2, THEN conjunct2,
        THEN conjunct2, THEN conjunct1] acc free by (simp add: id_def)
  have calls: "runCalls (trace (VerifyVolumesAreAttached exampleExecutor id bulkFirst None
      world0)) = [('''', '''', Some 200), ('''', '''', Some 200), (''A'', '''', Some 100)]"
    using t[where pluginName = "''A''", THEN conjunct2, THEN conjunct2, THEN conjunct2,
        THEN conjunct2, THEN conjunct2, THEN conjunct1] calls1
    by (simp add: partition_eval example_eval id_def)
  have one: "length (submissionsUnder ''A''
      (bulkRunCalls exampleExecutor id bulkFirst None world0)) = 1"
    using t[where pluginName = "''A''", THEN conjunct2, THEN conjunct2, THEN conjunct2,
        THEN conjunct2, THEN conjunct2, THEN conjunct2, THEN conjunct1] acc by (simp add: id_def)
  have none: "length (submissionsUnder ''B''
      (bulkRunCalls exampleExecutor id bulkFirst None world0)) = 0"
    using t[where pluginName = "''B''", THEN conjunct2, THEN conjunct2, THEN conjunct2,
        THEN conjunct2, THEN conjunct2, THEN conjunct2, THEN conjunct1] acc by (simp add: id_def)
  from perm acc ops busy calls one none show ?thesis by blast
qed

text \<open>
  Claim C10. When \<open>GenerateBulkVolumeVerifyFunc\<close> returns an error for an entry of the
  map, the entry is still among those for which \<open>VerifyVolumesAreAttached\<close> takes its one
  step each, and that step is: record the generator call, log the generation error, call
  the registry's \<open>Run\<close> with the plugin's name, the empty pod name and the task the failed
  generation returned, and log an error of \<open>Run\<close>. The events of the step are in the trace
  of the world returned, and when the plugin's name is not empty and its key was not inside
  a backoff window, an operation is running under (plugin name, empty pod name) in the
  registry of that world. Exactly one call of \<open>Run\<close> of the second loop is under the
  plugin's name, and it carries that task.
\<close>
theorem failed_bulk_generation_is_still_submitted:
  assumes "\<forall>b. mset (rangeOrder b) = mset b"
    and "entry \<in> set (fst (fst (partitioned oe attachedVolumes updater w)))"
    and "operationGenerator oe
           (bulkGenerateCall updater (snd (fst (partitioned oe attachedVolumes updater w))) entry) =
         (task, Some err)"
  shows "VerifyVolumesAreAttached oe rangeOrder attachedVolumes updater w =
      submitAll oe updater (snd (fst (partitioned oe attachedVolumes updater w)))
        (rangeOrder (fst (fst (partitioned oe attachedVolumes updater w))))
        (snd (partitioned oe attachedVolumes updater w)) \<and>
    entry \<in> set (rangeOrder (fst (fst (partitioned oe attachedVolumes updater w)))) \<and>
    distinct (map fst (rangeOrder (fst (fst (partitioned oe attachedVolumes updater w))))) \<and>
    submitOne oe updater (snd (fst (partitioned oe attachedVolumes updater w))) entry w' =
      (case Run (fst entry) '''' task
              (emit (Errorf (BulkGenerateError (fst entry) err))
                 (emit (Generate (bulkGenerateCall updater
                    (snd (fst (partitioned oe attachedVolumes updater w))) entry)) w')) of
         (Some e, w3) \<Rightarrow> emit (Errorf (BulkRunError (fst entry) e)) w3
       | (None, w3) \<Rightarrow> w3) \<and>
    set ([Generate (bulkGenerateCall updater
            (snd (fst (partitioned oe attachedVolumes updater w))) entry),
          Errorf (BulkGenerateError (fst entry) err),
          RunCalled (fst entry) '''' task] @
         (case acceptOrReject (fst entry) '''' (snd (partitioned oe attachedVolumes updater w)) of
            None \<Rightarrow> [Spawned task]
          | Some e \<Rightarrow> [Errorf (BulkRunError (fst entry) e)])) \<subseteq>
      set (trace (VerifyVolumesAreAttached oe rangeOrder attachedVolumes updater w)) \<and>
    (fst entry \<noteq> '''' \<and>
     acceptOrReject (fst entry) '''' w \<noteq> Some (ExponentialBackoffError (fst entry) '''') \<longrightarrow>
       acceptOrReject (fst entry) ''''
           (VerifyVolumesAreAttached oe rangeOrder attachedVolumes updater w) =
         Some (OperationAlreadyExistsError (fst entry) '''')) \<and>
    runCalls (trace (VerifyVolumesAreAttached oe rangeOrder attachedVolumes updater w)) =
      runCalls (trace (snd (partitioned oe attachedVolumes updater w))) @
      bulkRunCalls oe rangeOrder attachedVolumes updater w \<and>
    submissionsUnder (fst entry) (bulkRunCalls oe rangeOrder attachedVolumes updater w) =
      [(fst entry, '''', task)] \<and>
    BulkGenerateError (fst entry) err \<in>
      set (errorLines (trace (VerifyVolumesAreAttached oe rangeOrder attachedVolumes updater w)))"
proof -
  let ?bulk = "fst (fst (partitioned oe attachedVolumes updater w))"
  let ?sm = "snd (fst (partitioned oe attachedVolumes updater w))"
  let ?w1 = "snd (partitioned oe attachedVolumes updater w)"
  from assms(1) have perm: "mset (rangeOrder ?bulk) = mset ?bulk" by simp
  have c1: "VerifyVolumesAreAttached oe rangeOrder attachedVolumes updater w =
      submitAll oe updater ?sm (rangeOrder ?bulk) ?w1"
    by (rule VerifyVolumesAreAttached_world)
  have c2: "entry \<in> set (rangeOrder ?bulk)"
    using enumerated_keys(2)[OF perm] assms(2) by simp
  have c3: "distinct (map fst (rangeOrder ?bulk))"
    using enumerated_keys(1)[OF perm] keys_partitioned(2) by simp
  note c4 = submitOne_failed_generation[OF assms(3), of w']
  have "set (bulkEvents oe updater ?sm ?w1 entry) \<subseteq>
      set (trace (VerifyVolumesAreAttached oe rangeOrder attachedVolumes updater w))"
    using c2
    by (auto simp: trace_VerifyVolumesAreAttached[of rangeOrder oe attachedVolumes updater w,
          OF perm])
  then have c5: "set ([Generate (bulkGenerateCall updater ?sm entry),
          Errorf (BulkGenerateError (fst entry) err),
          RunCalled (fst entry) '''' task] @
         (case acceptOrReject (fst entry) '''' ?w1 of
            None \<Rightarrow> [Spawned task]
          | Some e \<Rightarrow> [Errorf (BulkRunError (fst entry) e)])) \<subseteq>
      set (trace (VerifyVolumesAreAttached oe rangeOrder attachedVolumes updater w))"
    by (simp only: bulkEvents_failed_generation[OF assms(3)])
  from assms(2) have "fst entry \<in> set (map fst ?bulk)" by simp
  then have k: "fst entry \<in> set (accumulatedPlugins oe attachedVolumes)"
    by (simp only: keys_partitioned(1))
  have c6: "fst entry \<noteq> '''' \<and>
     acceptOrReject (fst entry) '''' w \<noteq> Some (ExponentialBackoffError (fst entry) '''') \<longrightarrow>
       acceptOrReject (fst entry) ''''
           (VerifyVolumesAreAttached oe rangeOrder attachedVolumes updater w) =
         Some (OperationAlreadyExistsError (fst entry) '''')"
    using pending_after_VerifyVolumesAreAttached[of rangeOrder oe attachedVolumes updater w
        "fst entry", OF perm k] by blast
  note old = runCalls_of_failed_bulk_generation[OF assms]
  show ?thesis
    by (rule conjI[OF c1 conjI[OF c2 conjI[OF c3 conjI[OF c4 conjI[OF c5 conjI[OF c6 old]]]]]])
qed

theorem failed_bulk_generation_is_still_submitted_witness:
  "(\<forall>b :: bulkVerifyPlugins. mset (id b) = mset b) \<and>
   (''A'', [(''node1'', [1]), (''node2'', [2])]) \<in>
     set (fst (fst (partitioned bulkFailingExecutor bulkFirst None world0))) \<and>
   operationGenerator bulkFailingExecutor
       (bulkGenerateCall None (snd (fst (partitioned bulkFailingExecutor bulkFirst None world0)))
          (''A'', [(''node1'', [1]), (''node2'', [2])])) =
     (None, Some (Err ''bulk verification unavailable'')) \<and>
   operations (pendingOperations
       (VerifyVolumesAreAttached bulkFailingExecutor id bulkFirst None world0)) =
     [newOperation '''' '''', newOperation '''' '''', newOperation ''A'' ''''] \<and>
   acceptOrReject ''A'' ''''
       (VerifyVolumesAreAttached bulkFailingExecutor id bulkFirst None world0) =
     Some (OperationAlreadyExistsError ''A'' '''') \<and>
   {Errorf (BulkGenerateError ''A'' (Err ''bulk verification unavailable'')),
    RunCalled ''A'' '''' None, Spawned None} \<subseteq>
     set (trace (VerifyVolumesAreAttached bulkFailingExecutor id bulkFirst None world0)) \<and>
   submissionsUnder ''A''
       (runCalls (trace (VerifyVolumesAreAttached bulkFailingExecutor id bulkFirst None world0))) =
     [(''A'', '''', None)]"
proof -
  let ?entry = "(''A'', [(''node1'', [1]), (''node2'', [2])]) ::
    string \<times> (NodeName \<times> nat list) list"
  let ?err = "Err ''bulk verification unavailable''"
  note eval = partitioned_def bulkFirst_def verifyNodeVolumes.simps(2) example_eval verb_eval
    registry_eval accumulate_def Let_def lookup_def bulkGenerateCall_def
    bulkFailingExecutor_def bulkFailingGenerator_def
  have perm: "\<forall>b :: bulkVerifyPlugins. mset (id b) = mset b" by simp
  have entry: "?entry \<in> set (fst (fst (partitioned bulkFailingExecutor bulkFirst None world0)))"
    by (simp add: partition_eval example_eval)
  have gen: "operationGenerator bulkFailingExecutor
       (bulkGenerateCall None (snd (fst (partitioned bulkFailingExecutor bulkFirst None world0)))
          ?entry) = (None, Some ?err)"
    by (simp add: partition_eval example_eval)
  note t = failed_bulk_generation_is_still_submitted[OF perm entry gen]
  have free1: "acceptOrReject ''A'' '''' (snd (partitioned bulkFailingExecutor bulkFirst None
      world0)) = None"
    by (simp add: eval)
  have free: "acceptOrReject ''A'' '''' world0 \<noteq> Some (ExponentialBackoffError ''A'' '''')"
    by (simp add: verb_eval example_eval registry_eval)
  have calls1: "runCalls (trace (snd (partitioned bulkFailingExecutor bulkFirst None world0))) =
      [('''', '''', Some 7), ('''', '''', Some 7)]"
    by (simp add: eval)
  have ops: "operations (pendingOperations
       (VerifyVolumesAreAttached bulkFailingExecutor id bulkFirst None world0)) =
     [newOperation '''' '''', newOperation '''' '''', newOperation ''A'' '''']"
    unfolding t[THEN conjunct1]
    by (simp add: submitAll_def submitOne_def eval)
  have busy: "acceptOrReject ''A'' ''''
       (VerifyVolumesAreAttached bulkFailingExecutor id bulkFirst None world0) =
     Some (OperationAlreadyExistsError ''A'' '''')"
    using t[THEN conjunct2, THEN conjunct2, THEN conjunct2, THEN conjunct2, THEN conjunct2,
        THEN conjunct1] free by (simp add: id_def)
  have events: "{Errorf (BulkGenerateError ''A'' ?err), RunCalled ''A'' '''' None,
      Spawned None} \<subseteq>
     set (trace (VerifyVolumesAreAttached bulkFailingExecutor id bulkFirst None world0))"
    using t[THEN conjunct2, THEN conjunct2, THEN conjunct2, THEN conjunct2, THEN conjunct1]
      free1 by (simp add: id_def)
  have calls: "submissionsUnder ''A''
       (runCalls (trace (VerifyVolumesAreAttached bulkFailingExecutor id bulkFirst None world0))) =
     [(''A'', '''', None)]"
    using t[THEN conjunct2, THEN conjunct2, THEN conjunct2, THEN conjunct2, THEN conjunct2,
        THEN conjunct2, THEN conjunct1]
      t[THEN conjunct2, THEN conjunct2, THEN conjunct2, THEN conjunct2, THEN conjunct2,
        THEN conjunct2, THEN conjunct2, THEN conjunct1] calls1
    by (simp add: submissionsUnder_def id_def)
  from perm entry gen ops busy events calls show ?thesis by blast
qed

text \<open>
  Claim C4, as amended. When on each of the two nodes the volumes of the bulk-capable
  plugin A all come before the volumes of plugin B, \<open>VerifyVolumesAreAttached\<close> leaves the
  world that results from the per-node fallback for the first node with its whole list,
  then the per-node fallback for the second node with its whole list, then one bulk step
  for plugin A whose batch holds the A volumes of both nodes: the step generates the bulk
  task and calls the registry's \<open>Run\<close> with the name of A and the empty pod name. When
  that name is not empty and its key was not inside a backoff window, an operation is
  running under it in the registry of the world returned. The generator is called for
  these three tasks and no other, and \<open>Run\<close> is called with each task that was generated
  by a per-node call and with the bulk task.
\<close>
theorem bulk_batch_when_bulk_volumes_come_first:
  assumes "\<forall>b. mset (rangeOrder b) = mset b"
    and "node1 \<noteq> node2"
    and "allOfPlugin oe pluginA (as1 @ as2)" and "SupportsBulkVolumeVerification pluginA"
    and "allOfPlugin oe pluginB (bs1 @ bs2)" and "\<not> SupportsBulkVolumeVerification pluginB"
    and "as1 \<noteq> []" and "as2 \<noteq> []" and "bs1 \<noteq> []" and "bs2 \<noteq> []"
  shows "VerifyVolumesAreAttached oe rangeOrder
             [(node1, as1 @ bs1), (node2, as2 @ bs2)] updater w =
      submitOne oe updater
        (snd (fst (partitioned oe [(node1, as1 @ bs1), (node2, as2 @ bs2)] updater w)))
        (GetPluginName pluginA, [(node1, specsOf as1), (node2, specsOf as2)])
        (perNodeStep oe updater node2 (as2 @ bs2)
           (perNodeStep oe updater node1 (as1 @ bs1) w)) \<and>
    (GetPluginName pluginA \<noteq> '''' \<and>
     acceptOrReject (GetPluginName pluginA) '''' w \<noteq>
       Some (ExponentialBackoffError (GetPluginName pluginA) '''') \<longrightarrow>
       acceptOrReject (GetPluginName pluginA) ''''
           (VerifyVolumesAreAttached oe rangeOrder
              [(node1, as1 @ bs1), (node2, as2 @ bs2)] updater w) =
         Some (OperationAlreadyExistsError (GetPluginName pluginA) '''')) \<and>
    generateCalls (trace (VerifyVolumesAreAttached oe rangeOrder
             [(node1, as1 @ bs1), (node2, as2 @ bs2)] updater w)) =
      generateCalls (trace w) @
      [GenerateVolumesAreAttachedFunc (as1 @ bs1) node1 updater,
       GenerateVolumesAreAttachedFunc (as2 @ bs2) node2 updater,
       GenerateBulkVolumeVerifyFunc [(node1, specsOf as1), (node2, specsOf as2)]
         (GetPluginName pluginA)
         (lookup (snd (fst (partitioned oe [(node1, as1 @ bs1), (node2, as2 @ bs2)] updater w)))
            (GetPluginName pluginA))
         updater] \<and>
    runCalls (trace (VerifyVolumesAreAttached oe rangeOrder
             [(node1, as1 @ bs1), (node2, as2 @ bs2)] updater w)) =
      runCalls (trace w) @
      submission oe (GenerateVolumesAreAttachedFunc (as1 @ bs1) node1 updater) '''' '''' @
      submission oe (GenerateVolumesAreAttachedFunc (as2 @ bs2) node2 updater) '''' '''' @
      [(GetPluginName pluginA, '''',
        fst (operationGenerator oe
          (GenerateBulkVolumeVerifyFunc [(node1, specsOf as1), (node2, specsOf as2)]
             (GetPluginName pluginA)
             (lookup (snd (fst (partitioned oe [(node1, as1 @ bs1), (node2, as2 @ bs2)]
                updater w))) (GetPluginName pluginA))
             updater)))]"
proof -
  let ?av = "[(node1, as1 @ bs1), (node2, as2 @ bs2)]"
  let ?A = "GetPluginName pluginA"
  let ?p = "partitioned oe ?av updater w"
  have bulk: "fst (fst ?p) = [(?A, [(node1, specsOf as1), (node2, specsOf as2)])]"
    by (rule bulk_map_when_bulk_volumes_come_first[OF assms(2-8)])
  from assms(1) have perm: "mset (rangeOrder (fst (fst ?p))) = mset (fst (fst ?p))" by simp
  then have order: "rangeOrder (fst (fst ?p)) =
      [(?A, [(node1, specsOf as1), (node2, specsOf as2)])]"
    unfolding bulk by (rule mset_singleton_list)
  have world: "snd ?p = perNodeStep oe updater node2 (as2 @ bs2)
           (perNodeStep oe updater node1 (as1 @ bs1) w)"
    by (rule world_when_bulk_volumes_come_first[OF assms(3-6) assms(9,10)])
  have c1: "VerifyVolumesAreAttached oe rangeOrder ?av updater w =
      submitOne oe updater (snd (fst ?p))
        (?A, [(node1, specsOf as1), (node2, specsOf as2)])
        (perNodeStep oe updater node2 (as2 @ bs2)
           (perNodeStep oe updater node1 (as1 @ bs1) w))"
    by (simp only: VerifyVolumesAreAttached_world[of oe rangeOrder ?av updater w] order world
        submitAll_Cons submitAll_Nil)
  have "set (map fst (fst (fst ?p))) = set (accumulatedPlugins oe ?av)"
    by (rule keys_partitioned(1))
  then have k: "?A \<in> set (accumulatedPlugins oe ?av)"
    unfolding bulk by auto
  have c2: "?A \<noteq> '''' \<and>
     acceptOrReject ?A '''' w \<noteq> Some (ExponentialBackoffError ?A '''') \<longrightarrow>
       acceptOrReject ?A '''' (VerifyVolumesAreAttached oe rangeOrder ?av updater w) =
         Some (OperationAlreadyExistsError ?A '''')"
    using pending_after_VerifyVolumesAreAttached[of rangeOrder oe ?av updater w ?A, OF perm k]
    by blast
  note old = calls_when_bulk_volumes_come_first[OF assms, of updater w]
  show ?thesis
    by (rule conjI[OF c1 conjI[OF c2 old]])
qed

theorem bulk_batch_when_bulk_volumes_come_first_witness:
  "(\<forall>b :: bulkVerifyPlugins. mset (id b) = mset b) \<and>
   allOfPlugin exampleExecutor pluginA
     ([volumeAt ''node1'' ''a1'' (Some 1)] @ [volumeAt ''node2'' ''a2'' (Some 2)]) \<and>
   allOfPlugin exampleExecutor pluginB
     ([volumeAt ''node1'' ''b1'' (Some 11)] @ [volumeAt ''node2'' ''b2'' (Some 12)]) \<and>
   SupportsBulkVolumeVerification pluginA \<and> \<not> SupportsBulkVolumeVerification pluginB \<and>
   operations (pendingOperations
       (VerifyVolumesAreAttached exampleExecutor id bulkFirst None world0)) =
     [newOperation '''' '''', newOperation '''' '''', newOperation ''A'' ''''] \<and>
   acceptOrReject ''A'' '''' (VerifyVolumesAreAttached exampleExecutor id bulkFirst None world0) =
     Some (OperationAlreadyExistsError ''A'' '''') \<and>
   generateCalls (trace (VerifyVolumesAreAttached exampleExecutor id bulkFirst None world0)) =
     [GenerateVolumesAreAttachedFunc
        [volumeAt ''node1'' ''a1'' (Some 1), volumeAt ''node1'' ''b1'' (Some 11)] ''node1'' None,
      GenerateVolumesAreAttachedFunc
        [volumeAt ''node2'' ''a2'' (Some 2), volumeAt ''node2'' ''b2'' (Some 12)] ''node2'' None,
      GenerateBulkVolumeVerifyFunc [(''node1'', [1]), (''node2'', [2])] ''A''
        [(1, ''a1''), (2, ''a2'')] None] \<and>
   runCalls (trace (VerifyVolumesAreAttached exampleExecutor id bulkFirst None world0)) =
     [('''', '''', Some 200), ('''', '''', Some 200), (''A'', '''', Some 100)]"
proof -
  let ?as1 = "[volumeAt ''node1'' ''a1'' (Some 1)]"
  let ?bs1 = "[volumeAt ''node1'' ''b1'' (Some 11)]"
  let ?as2 = "[volumeAt ''node2'' ''a2'' (Some 2)]"
  let ?bs2 = "[volumeAt ''node2'' ''b2'' (Some 12)]"
  note eval = partitioned_def verifyNodeVolumes.simps(2) example_eval verb_eval
    registry_eval accumulate_def Let_def lookup_def bulkGenerateCall_def perNodeStep_def
    specsOf_def
  have perm: "\<forall>b :: bulkVerifyPlugins. mset (id b) = mset b" by simp
  have h: "(''node1'' :: string) \<noteq> ''node2''"
    "allOfPlugin exampleExecutor pluginA (?as1 @ ?as2)" "SupportsBulkVolumeVerification pluginA"
    "allOfPlugin exampleExecutor pluginB (?bs1 @ ?bs2)" "\<not> SupportsBulkVolumeVerification pluginB"
    "?as1 \<noteq> []" "?as2 \<noteq> []" "?bs1 \<noteq> []" "?bs2 \<noteq> []"
    by (simp_all add: partition_eval example_eval)
  have input: "bulkFirst = [(''node1'', ?as1 @ ?bs1), (''node2'', ?as2 @ ?bs2)]"
    by (simp add: bulkFirst_def)
  note t = bulk_batch_when_bulk_volumes_come_first[OF perm h, of None world0,
      folded input]
  have free: "acceptOrReject ''A'' '''' world0 \<noteq> Some (ExponentialBackoffError ''A'' '''')"
    "GetPluginName pluginA = ''A''"
    by (simp_all add: verb_eval example_eval registry_eval)
  have sm: "snd (fst (partitioned exampleExecutor bulkFirst None world0)) =
      [(''A'', [(1, ''a1''), (2, ''a2'')])]"
    by (simp add: partition_eval example_eval)
  have lk: "lookup (snd (fst (partitioned exampleExecutor bulkFirst None world0))) ''A'' =
      [(1, ''a1''), (2, ''a2'')]"
    by (simp add: sm lookup_def)
  have start: "generateCalls (trace world0) = []" "runCalls (trace world0) = []"
    by (simp_all add: verb_eval example_eval registry_eval)
  have ops: "operations (pendingOperations
       (VerifyVolumesAreAttached exampleExecutor id bulkFirst None world0)) =
     [newOperation '''' '''', newOperation '''' '''', newOperation ''A'' '''']"
    unfolding t[THEN conjunct1]
    by (simp add: submitOne_def sm eval)
  have busy: "acceptOrReject ''A'' ''''
      (VerifyVolumesAreAttached exampleExecutor id bulkFirst None world0) =
     Some (OperationAlreadyExistsError ''A'' '''')"
    using t[THEN conjunct2, THEN conjunct1] free by (simp add: id_def)
  have gens: "generateCalls (trace (VerifyVolumesAreAttached exampleExecutor id bulkFirst None
      world0)) =
     [GenerateVolumesAreAttachedFunc
        [volumeAt ''node1'' ''a1'' (Some 1), volumeAt ''node1'' ''b1'' (Some 11)] ''node1'' None,
      GenerateVolumesAreAttachedFunc
        [volumeAt ''node2'' ''a2'' (Some 2), volumeAt ''node2'' ''b2'' (Some 12)] ''node2'' None,
      GenerateBulkVolumeVerifyFunc [(''node1'', [1]), (''node2'', [2])] ''A''
        [(1, ''a1''), (2, ''a2'')] None]"
    using t[THEN conjunct2, THEN conjunct2, THEN conjunct1]
    by (simp add: lk free(2) start specsOf_def volumeAt_def id_def)
  have calls: "runCalls (trace (VerifyVolumesAreAttached exampleExecutor id bulkFirst None
      world0)) = [('''', '''', Some 200), ('''', '''', Some 200), (''A'', '''', Some 100)]"
    using t[THEN conjunct2, THEN conjunct2, THEN conjunct2]
    by (simp add: lk free(2) start specsOf_def volumeAt_def submission_def exampleExecutor_def
        okGenerator_def id_def)
  from perm h(2-5) ops busy gens calls show ?thesis by blast
qed

subsection \<open>hasMountRefs\<close>

lemma Contains_iff: "Contains s t \<longleftrightarrow> (\<exists>ps ss. s = ps @ t @ ss)"
proof (induction s)
  case Nil then show ?case by auto
next
  case (Cons c s)
  show ?case
  proof
    assume "Contains (c # s) t"
    then consider "prefix t (c # s)" | "Contains s t" by auto
    then show "\<exists>ps ss. c # s = ps @ t @ ss"
    proof cases
      case 1 then obtain ss where "c # s = t @ ss" by (auto simp: prefix_def)
      then have "c # s = [] @ t @ ss" by simp
      then show ?thesis by blast
    next
      case 2 with Cons obtain ps ss where "s = ps @ t @ ss" by blast
      then have "c # s = (c # ps) @ t @ ss" by simp
      then show ?thesis by blast
    qed
  next
    assume "\<exists>ps ss. c # s = ps @ t @ ss"
    then obtain ps ss where e: "c # s = ps @ t @ ss" by blast
    show "Contains (c # s) t"
    proof (cases ps)
      case Nil with e have "prefix t (c # s)" by (simp add: prefix_def)
      then show ?thesis by simp
    next
      case (Cons p ps') with e have "s = ps' @ t @ ss" by simp
      with Cons.IH show ?thesis by auto
    qed
  qed
qed

lemma countRefs_eq: "countRefs p rs n = n + int (length (filter (\<lambda>r. \<not> Contains r p) rs))"
  by (induction rs arbitrary: n) auto

text \<open>
  Claim C9. For every mount path and every list of reference paths, \<open>hasMountRefs\<close> is
  true exactly when at least one reference does not have the path as a contiguous
  substring; on the two inputs of the specification it gives true and false.
\<close>
theorem hasMountRefs_iff_some_ref_outside:
  "(hasMountRefs mountPath mountRefs \<longleftrightarrow>
      (\<exists>r \<in> set mountRefs. \<not> (\<exists>before after. r = before @ mountPath @ after))) \<and>
   hasMountRefs ''/mnt/pod123'' [''/mnt/pod123/sub'', ''/mnt/other''] = True \<and>
   hasMountRefs ''/mnt/pod123'' [''/mnt/pod123/sub''] = False"
proof (intro conjI)
  show "hasMountRefs mountPath mountRefs \<longleftrightarrow>
      (\<exists>r \<in> set mountRefs. \<not> (\<exists>before after. r = before @ mountPath @ after))"
    by (simp add: hasMountRefs_def countRefs_eq filter_empty_conv Contains_iff)
  show "hasMountRefs ''/mnt/pod123'' [''/mnt/pod123/sub'', ''/mnt/other''] = True"
    by (simp add: hasMountRefs_def)
  show "hasMountRefs ''/mnt/pod123'' [''/mnt/pod123/sub''] = False"
    by (simp add: hasMountRefs_def)
qed

text \<open>A reference outside the path counts; references that contain the path anywhere do not.\<close>
theorem hasMountRefs_iff_some_ref_outside_witness:
  "hasMountRefs ''/a'' [''/a/b'', ''/c''] \<and> \<not> hasMountRefs ''/a'' [''/a/b'', ''/x/a'']"
proof -
  have 1: "\<not> (\<exists>before after. ''/c'' = before @ ''/a'' @ after)"
    using Contains_iff[of "''/c''" "''/a''"] by simp
  have 2: "\<exists>before after. ''/a/b'' = before @ ''/a'' @ after"
    using Contains_iff[of "''/a/b''" "''/a''"] by simp
  have 3: "\<exists>before after. ''/x/a'' = before @ ''/a'' @ after"
    using Contains_iff[of "''/x/a''" "''/a''"] by simp
  show ?thesis
    using hasMountRefs_iff_some_ref_outside[of "''/a''" "[''/a/b'', ''/c'']"]
      hasMountRefs_iff_some_ref_outside[of "''/a''" "[''/a/b'', ''/x/a'']"] 1 2 3
    by simp
qed

end
